theory Spec2Isabelle
  imports Main "HOL-Library.Sublist" "HOL-Library.List_Lexorder"
begin

section \<open>Python strings\<close>

text \<open>
  A Python \<open>str\<close> is a sequence of Unicode code points, and so it is here: a list of
  natural numbers. \<open>str\<close> turns a literal of ASCII or Latin-1 characters into such a
  string.
\<close>

type_synonym ustring = "nat list"

definition str :: "string \<Rightarrow> ustring" where
  "str s = map of_char s"

text \<open>
  \<open>str.isspace\<close> of one character, which \<open>str.strip\<close> and the class \<open>\s\<close> of \<open>re\<close>
  share: the six ASCII controls and the blank, the four separators U+001C to U+001F,
  and the white space of Unicode beyond ASCII.
\<close>

definition py_isspace :: "nat \<Rightarrow> bool" where
  "py_isspace c = (c \<in> set [0x09, 0x0A, 0x0B, 0x0C, 0x0D, 0x1C, 0x1D, 0x1E, 0x1F, 0x20,
                              0x85, 0xA0, 0x1680, 0x2000, 0x2001, 0x2002, 0x2003, 0x2004,
                              0x2005, 0x2006, 0x2007, 0x2008, 0x2009, 0x200A, 0x2028, 0x2029,
                              0x202F, 0x205F, 0x3000])"

definition py_strip :: "ustring \<Rightarrow> ustring" where
  "py_strip s = rev (dropWhile py_isspace (rev (dropWhile py_isspace s)))"

text \<open>
  The case mappings and the class of decimal digits come from the Unicode database of
  the Python that runs the program. On ASCII they are fixed; beyond ASCII they are taken
  as given: \<open>upper_ext\<close> is the full upper case of a code point, which may be several
  code points; \<open>lower_ext\<close> is the lower case of the code point at a position of a
  string, which for the Greek capital sigma depends on its neighbours; \<open>decimal_ext\<close>
  tells the decimal digits.
\<close>

record unicode =
  upper_ext :: "nat \<Rightarrow> ustring"
  lower_ext :: "ustring \<Rightarrow> nat \<Rightarrow> ustring"
  decimal_ext :: "nat \<Rightarrow> bool"

definition ascii_upper :: "nat \<Rightarrow> nat" where
  "ascii_upper c = (if 97 \<le> c \<and> c \<le> 122 then c - 32 else c)"

definition ascii_lower :: "nat \<Rightarrow> nat" where
  "ascii_lower c = (if 65 \<le> c \<and> c \<le> 90 then c + 32 else c)"

text \<open>\<open>s.upper()\<close>, character by character.\<close>

definition py_upper :: "unicode \<Rightarrow> ustring \<Rightarrow> ustring" where
  "py_upper U s = concat (map (\<lambda>c. if c < 128 then [ascii_upper c] else upper_ext U c) s)"

text \<open>\<open>s.lower()\<close>: \<open>lower_from U s i cs\<close> lowers the rest \<open>cs\<close> of \<open>s\<close> from position
  \<open>i\<close> on.\<close>

fun lower_from :: "unicode \<Rightarrow> ustring \<Rightarrow> nat \<Rightarrow> ustring \<Rightarrow> ustring" where
  "lower_from U s i [] = []"
| "lower_from U s i (c # cs) =
     (if c < 128 then [ascii_lower c] else lower_ext U s i) @ lower_from U s (Suc i) cs"

definition py_lower :: "unicode \<Rightarrow> ustring \<Rightarrow> ustring" where
  "py_lower U s = lower_from U s 0 s"

text \<open>The class \<open>\d\<close> of \<open>re\<close> on a \<open>str\<close>.\<close>

definition py_isdecimal :: "unicode \<Rightarrow> nat \<Rightarrow> bool" where
  "py_isdecimal U c = (if c < 128 then 48 \<le> c \<and> c \<le> 57 else decimal_ext U c)"

text \<open>\<open>needle in hay\<close>, and \<open>re.search\<close> of a pattern without metacharacters.\<close>

fun contains :: "ustring \<Rightarrow> ustring \<Rightarrow> bool" where
  "contains needle [] = (needle = [])"
| "contains needle (c # cs) = (prefix needle (c # cs) \<or> contains needle cs)"

text \<open>\<open>s.split('/')[-1]\<close>: what follows the last slash, all of \<open>s\<close> when it has none.\<close>

definition last_segment :: "ustring \<Rightarrow> ustring" where
  "last_segment s = rev (takeWhile (\<lambda>c. c \<noteq> of_char (CHR ''/'')) (rev s))"

section \<open>The database\<close>

text \<open>
  One event as \<open>get_recent_news\<close> builds it and \<open>save_news\<close> stores it. The columns
  \<open>isin\<close> and \<open>payment_amount\<close> may hold \<open>None\<close>.
\<close>

record news =
  news_id :: ustring
  news_url :: ustring
  title :: ustring
  isin :: "ustring option"
  event_type :: ustring
  payment_amount :: "ustring option"
  published_date :: ustring

text \<open>
  The SQLite file: the rows of \<open>tracked_news\<close> in insertion order, and the rows of
  \<open>user_isins\<close>, a table that exists only once \<open>add_isin_tracking\<close> has run
  (\<open>None\<close> before).
\<close>

record db =
  tracked_news :: "news list"
  user_isins :: "(int \<times> ustring) list option"

text \<open>What the program can raise in the parts modelled here: \<open>sqlite3.OperationalError\<close>
  for a missing table, and \<open>bs4.ParserRejectedMarkup\<close>.\<close>

datatype error = OperationalError | ParserRejectedMarkup

definition setup_database :: db where
  "setup_database = \<lparr>tracked_news = [], user_isins = None\<rparr>"

text \<open>
  \<open>INSERT OR IGNORE\<close> under \<open>UNIQUE(user_id, isin)\<close>: the row is appended unless the
  pair is there; \<open>rowcount > 0\<close> tells which.
\<close>

definition add_isin_tracking :: "unicode \<Rightarrow> db \<Rightarrow> ustring \<Rightarrow> int \<Rightarrow> bool \<times> db" where
  "add_isin_tracking U d isin_code user_id =
     (let rows = (case user_isins d of None \<Rightarrow> [] | Some rs \<Rightarrow> rs);
          row = (user_id, py_upper U isin_code)
      in if row \<in> set rows then (False, d\<lparr>user_isins := Some rows\<rparr>)
         else (True, d\<lparr>user_isins := Some (rows @ [row])\<rparr>))"

text \<open>
  \<open>SELECT isin FROM user_isins WHERE user_id = ?\<close>. SQLite answers from the index of
  the \<open>UNIQUE\<close> constraint, so the codes come in ascending order; the comparison of
  \<open>TEXT\<close> is that of the code points.
\<close>

definition get_user_isins :: "db \<Rightarrow> int \<Rightarrow> error + ustring list" where
  "get_user_isins d user_id =
     (case user_isins d of
        None \<Rightarrow> Inl OperationalError
      | Some rows \<Rightarrow> Inr (sort (map snd (filter (\<lambda>row. fst row = user_id) rows))))"

definition is_news_tracked :: "db \<Rightarrow> ustring \<Rightarrow> bool" where
  "is_news_tracked d nid = (nid \<in> set (map news_id (tracked_news d)))"

text \<open>\<open>INSERT OR IGNORE\<close> under \<open>news_id TEXT UNIQUE\<close>.\<close>

definition save_news :: "db \<Rightarrow> news \<Rightarrow> bool \<times> db" where
  "save_news d news_data =
     (if news_id news_data \<in> set (map news_id (tracked_news d)) then (False, d)
      else (True, d\<lparr>tracked_news := tracked_news d @ [news_data]\<rparr>))"

text \<open>A run of \<open>save_news\<close> calls, with the value each call returned.\<close>

fun save_all :: "db \<Rightarrow> news list \<Rightarrow> bool list \<times> db" where
  "save_all d [] = ([], d)"
| "save_all d (n # ns) =
     (case save_news d n of
        (r, d') \<Rightarrow> (case save_all d' ns of (rs, d'') \<Rightarrow> (r # rs, d'')))"

text \<open>What the \<open>UNIQUE\<close> constraints of the two tables keep true.\<close>

definition ledger_unique :: "db \<Rightarrow> bool" where
  "ledger_unique d = distinct (map news_id (tracked_news d))"

definition subscriptions_unique :: "db \<Rightarrow> bool" where
  "subscriptions_unique d = (case user_isins d of None \<Rightarrow> True | Some rows \<Rightarrow> distinct rows)"

section \<open>Extraction from a page\<close>

text \<open>
  BeautifulSoup's tree is read through \<open>find\<close> and \<open>find_all\<close> only, which walk the
  tags in document order. A parsed page is therefore the list of its tags in that order,
  each with its name, the two attributes the code looks at, and its text nodes
  (those of its descendants included) in order.
\<close>

record element =
  el_name :: ustring
  el_href :: "ustring option"
  el_class :: "ustring option"
  el_strings :: "ustring list"

text \<open>\<open>get_text()\<close> and \<open>get_text(strip=True)\<close>.\<close>

definition get_text :: "element \<Rightarrow> ustring" where
  "get_text e = concat (el_strings e)"

definition get_text_strip :: "element \<Rightarrow> ustring" where
  "get_text_strip e = concat (filter (\<lambda>s. s \<noteq> []) (map py_strip (el_strings e)))"

text \<open>The calendar date of \<open>datetime.now()\<close>, and \<open>strftime("%d.%m.%Y")\<close>.\<close>

record date =
  day :: nat
  month :: nat
  year :: nat

definition digit :: "nat \<Rightarrow> nat" where
  "digit k = 48 + k mod 10"

definition strftime_dmy :: "date \<Rightarrow> ustring" where
  "strftime_dmy t =
     [digit (day t div 10), digit (day t)] @ str ''.'' @
     [digit (month t div 10), digit (month t)] @ str ''.'' @
     [digit (year t div 1000), digit (year t div 100), digit (year t div 10), digit (year t)]"

text \<open>What \<open>datetime\<close> can hold, for the years that \<open>%Y\<close> prints with four digits.\<close>

definition valid_date :: "date \<Rightarrow> bool" where
  "valid_date t = (1 \<le> day t \<and> day t \<le> 31 \<and> 1 \<le> month t \<and> month t \<le> 12
                   \<and> 1000 \<le> year t \<and> year t \<le> 9999)"

text \<open>
  What the program is run against: the HTTP server (\<open>requests.get\<close> of a URL gives a
  response or raises), the HTML parser (\<open>BeautifulSoup(text, 'html.parser')\<close> gives the
  tree, or raises \<open>ParserRejectedMarkup\<close> on markup it rejects: \<open>None\<close>), and the
  clock, read once per call.
\<close>

datatype http_result = HttpResponse int ustring | RequestException

record world =
  http_get :: "ustring \<Rightarrow> http_result"
  soup_of :: "ustring \<Rightarrow> element list option"
  today :: date

text \<open>\<open>re.search(r'RU[0-9A-Z]{10}', s)\<close>, and \<open>re.match(r'^RU[0-9A-Z]{10}$', s)\<close>, whose
  \<open>$\<close> also matches before a final newline.\<close>

definition isin_char :: "nat \<Rightarrow> bool" where
  "isin_char c = (48 \<le> c \<and> c \<le> 57 \<or> 65 \<le> c \<and> c \<le> 90)"

definition isin_at :: "ustring \<Rightarrow> bool" where
  "isin_at s = (prefix (str ''RU'') s \<and> 12 \<le> length s \<and> list_all isin_char (take 10 (drop 2 s)))"

fun re_search_isin :: "ustring \<Rightarrow> ustring option" where
  "re_search_isin [] = None"
| "re_search_isin (c # cs) =
     (if isin_at (c # cs) then Some (take 12 (c # cs)) else re_search_isin cs)"

definition re_match_isin :: "ustring \<Rightarrow> bool" where
  "re_match_isin s = (isin_at s \<and> (drop 12 s = [] \<or> drop 12 s = [0x0A]))"

text \<open>
  \<open>re.search(r'(\d+[.,]\d+)\s*rub', s, re.IGNORECASE)\<close>, the last three letters being the
  Cyrillic ones of the source, U+0440, U+0443 and U+0431, which match themselves and
  their capitals U+0420, U+0423 and U+0411. Each repetition is followed by a character
  outside its class, so the greedy match at a position is the only one there: digits, a
  point or a comma, digits, white space, the three letters. The first position that
  matches gives group 1.
\<close>

definition rub_at :: "ustring \<Rightarrow> bool" where
  "rub_at s =
     (case s of
        a # b # c # _ \<Rightarrow>
          (a = 0x440 \<or> a = 0x420) \<and> (b = 0x443 \<or> b = 0x423) \<and> (c = 0x431 \<or> c = 0x411)
      | _ \<Rightarrow> False)"

definition payment_at :: "unicode \<Rightarrow> ustring \<Rightarrow> ustring option" where
  "payment_at U s =
     (let d1 = takeWhile (py_isdecimal U) s; r1 = dropWhile (py_isdecimal U) s
      in if d1 = [] then None
         else (case r1 of
                 [] \<Rightarrow> None
               | sep # r2 \<Rightarrow>
                   if sep \<noteq> of_char (CHR ''.'') \<and> sep \<noteq> of_char (CHR '','') then None
                   else (let d2 = takeWhile (py_isdecimal U) r2;
                             r3 = dropWhile (py_isdecimal U) r2
                         in if d2 = [] then None
                            else if rub_at (dropWhile py_isspace r3)
                                 then Some (d1 @ [sep] @ d2) else None)))"

fun re_search_payment :: "unicode \<Rightarrow> ustring \<Rightarrow> ustring option" where
  "re_search_payment U [] = None"
| "re_search_payment U (c # cs) =
     (case payment_at U (c # cs) of Some g \<Rightarrow> Some g | None \<Rightarrow> re_search_payment U cs)"

text \<open>The Russian literals of the source: the placeholders for an unknown value and for
  a link without text, the three keywords, the three event types, and the suffix of an
  amount.\<close>

definition str_unknown :: ustring where
  "str_unknown =
     [0x41D, 0x435, 0x438, 0x437, 0x432, 0x435, 0x441, 0x442, 0x43D, 0x43E]"

definition str_no_title :: ustring where
  "str_no_title =
     [0x411, 0x435, 0x437, 0x20, 0x43D, 0x430, 0x437, 0x432, 0x430, 0x43D, 0x438,
     0x44F]"

definition kw_coupon :: ustring where
  "kw_coupon =
     [0x432, 0x44B, 0x43F, 0x43B, 0x430, 0x442, 0x430, 0x20, 0x43A, 0x443, 0x43F,
     0x43E, 0x43D, 0x43D, 0x43E, 0x433, 0x43E, 0x20, 0x434, 0x43E, 0x445, 0x43E,
     0x434, 0x430]"

definition kw_redemption :: ustring where
  "kw_redemption =
     [0x43F, 0x43E, 0x433, 0x430, 0x448, 0x435, 0x43D, 0x438, 0x435]"

definition kw_offer :: ustring where
  "kw_offer =
     [0x43E, 0x444, 0x435, 0x440, 0x442, 0x430]"

definition str_coupon :: ustring where
  "str_coupon =
     [0x412, 0x44B, 0x43F, 0x43B, 0x430, 0x442, 0x430, 0x20, 0x43A, 0x443, 0x43F,
     0x43E, 0x43D, 0x43D, 0x43E, 0x433, 0x43E, 0x20, 0x434, 0x43E, 0x445, 0x43E,
     0x434, 0x430]"

definition str_redemption :: ustring where
  "str_redemption =
     [0x41F, 0x43E, 0x433, 0x430, 0x448, 0x435, 0x43D, 0x438, 0x435]"

definition str_offer :: ustring where
  "str_offer =
     [0x41E, 0x444, 0x435, 0x440, 0x442, 0x430]"

definition str_rub :: ustring where
  "str_rub =
     [0x20, 0x440, 0x443, 0x431, 0x2E]"

text \<open>The dictionary \<open>parse_news_page\<close> returns.\<close>

record news_details =
  d_title :: ustring
  d_isin :: "ustring option"
  d_event_type :: ustring
  d_payment_amount :: "ustring option"
  d_published_date :: ustring

text \<open>The function has no handler of its own: what the parser raises leaves it.\<close>

definition parse_news_page :: "unicode \<Rightarrow> world \<Rightarrow> ustring \<Rightarrow> error + news_details" where
  "parse_news_page U w html_content =
     (case soup_of w html_content of
        None \<Rightarrow> Inl ParserRejectedMarkup
      | Some soup \<Rightarrow>
          (let title_element = find (\<lambda>e. el_name e = str ''h1'') soup;
               title = (case title_element of
                          Some e \<Rightarrow> py_strip (get_text e) | None \<Rightarrow> str_unknown);
               isin = re_search_isin title;
               event_type =
                 (if contains kw_coupon (py_lower U title) then str_coupon
                  else if contains kw_redemption (py_lower U title) then str_redemption
                  else if contains kw_offer (py_lower U title) then str_offer
                  else str_unknown);
               payment_amount =
                 (case re_search_payment U html_content of
                    Some g \<Rightarrow> Some (g @ str_rub) | None \<Rightarrow> None);
               date_element =
                 (case find (\<lambda>e. el_name e = str ''time'') soup of
                    Some e \<Rightarrow> Some e
                  | None \<Rightarrow>
                      find (\<lambda>e. el_name e = str ''div'' \<and>
                                 (case el_class e of
                                    Some c \<Rightarrow> contains (str ''date'') c | None \<Rightarrow> False)) soup);
               published_date =
                 (case date_element of
                    Some e \<Rightarrow> py_strip (get_text e) | None \<Rightarrow> strftime_dmy (today w))
           in Inr \<lparr>d_title = title, d_isin = isin, d_event_type = event_type,
                   d_payment_amount = payment_amount, d_published_date = published_date\<rparr>))"

section \<open>The fetcher and the ingestion cycle\<close>

definition base_url :: ustring where
  "base_url = str ''https://nsddata.ru''"

text \<open>\<open>soup.find_all('a', href=re.compile(r'/ru/news/view/'))\<close>.\<close>

definition news_elements :: "element list \<Rightarrow> element list" where
  "news_elements soup =
     filter (\<lambda>e. el_name e = str ''a'' \<and>
                 (case el_href e of
                    Some h \<Rightarrow> contains (str ''/ru/news/view/'') h | None \<Rightarrow> False)) soup"

text \<open>The body of the \<open>for\<close> loop of \<open>get_recent_news\<close>, \<open>news_links\<close> being the
  list it appends to; \<open>text\<close> is \<open>response.text\<close>, the index page. An exception of
  \<open>parse_news_page\<close> ends the loop.\<close>

fun collect_links ::
  "unicode \<Rightarrow> world \<Rightarrow> ustring \<Rightarrow> element list \<Rightarrow> news list \<Rightarrow> error + news list" where
  "collect_links U w text [] news_links = Inr news_links"
| "collect_links U w text (element # rest) news_links =
     (case el_href element of
        None \<Rightarrow> collect_links U w text rest news_links
      | Some href \<Rightarrow>
          if href \<noteq> [] \<and> contains (str ''/ru/news/view/'') href then
            (let full_url = (if prefix (str ''/'') href then base_url @ href else href);
                 nid = (if of_char (CHR ''/'') \<in> set href then last_segment href else href)
             in case parse_news_page U w text of
                  Inl e \<Rightarrow> Inl e
                | Inr news_details \<Rightarrow>
                    collect_links U w text rest
                      (news_links @
                       [\<lparr>news_id = nid,
                         news_url = full_url,
                         title = (if get_text_strip element \<noteq> [] then get_text_strip element
                                  else str_no_title),
                         isin = d_isin news_details,
                         event_type = d_event_type news_details,
                         payment_amount = d_payment_amount news_details,
                         published_date = d_published_date news_details\<rparr>]))
          else collect_links U w text rest news_links)"

text \<open>A request that raises, a status other than 200 and any exception of the parsing
  all give the empty list: the body of the function is one \<open>try\<close> block.\<close>

definition get_recent_news :: "unicode \<Rightarrow> world \<Rightarrow> news list" where
  "get_recent_news U w =
     (case http_get w (base_url @ str ''/ru/news'') of
        RequestException \<Rightarrow> []
      | HttpResponse status_code text \<Rightarrow>
          if status_code \<noteq> 200 then []
          else (case soup_of w text of
                  None \<Rightarrow> []
                | Some soup \<Rightarrow>
                    (case collect_links U w text (take 10 (news_elements soup)) [] of
                       Inl e \<Rightarrow> []
                     | Inr news_links \<Rightarrow> news_links)))"

text \<open>The loop of \<open>check_new_news\<close>, with the list \<open>new_news\<close> it appends to.\<close>

fun check_loop :: "db \<Rightarrow> news list \<Rightarrow> news list \<Rightarrow> news list \<times> db" where
  "check_loop d [] new_news = (new_news, d)"
| "check_loop d (n # recent_news) new_news =
     (if \<not> is_news_tracked d (news_id n) then
        (case save_news d n of
           (True, d') \<Rightarrow> check_loop d' recent_news (new_news @ [n])
         | (False, d') \<Rightarrow> check_loop d' recent_news new_news)
      else check_loop d recent_news new_news)"

definition check_new_news :: "unicode \<Rightarrow> world \<Rightarrow> db \<Rightarrow> news list \<times> db" where
  "check_new_news U w d = check_loop d (get_recent_news U w) []"

section \<open>Commands and notification\<close>

datatype reply = UsageHint | InvalidFormat | Added ustring | AlreadyTracked ustring

text \<open>The \<open>/add\<close> command; \<open>args\<close> are the words after the command.\<close>

definition add_isin :: "unicode \<Rightarrow> db \<Rightarrow> int \<Rightarrow> ustring list \<Rightarrow> db \<times> reply" where
  "add_isin U d user_id args =
     (case args of
        [] \<Rightarrow> (d, UsageHint)
      | a # _ \<Rightarrow>
          (let isin_code = py_strip (py_upper U a)
           in if \<not> re_match_isin isin_code then (d, InvalidFormat)
              else (case add_isin_tracking U d isin_code user_id of
                      (True, d') \<Rightarrow> (d', Added isin_code)
                    | (False, d') \<Rightarrow> (d', AlreadyTracked isin_code))))"

text \<open>\<open>[news for news in new_news if news.get('isin') in user_isins]\<close>: \<open>None\<close> equals
  no string of the list.\<close>

definition relevant_news :: "ustring list \<Rightarrow> news list \<Rightarrow> news list" where
  "relevant_news codes new_news = filter (\<lambda>n. isin n \<in> set (map Some codes)) new_news"

text \<open>The \<open>/check\<close> command: the state after it and the events sent to the caller. Without
  the table \<open>get_user_isins\<close> raises; without codes nothing is fetched.\<close>

definition manual_check :: "unicode \<Rightarrow> world \<Rightarrow> db \<Rightarrow> int \<Rightarrow> error + (db \<times> news list)" where
  "manual_check U w d user_id =
     (case get_user_isins d user_id of
        Inl e \<Rightarrow> Inl e
      | Inr codes \<Rightarrow>
          if codes = [] then Inr (d, [])
          else (case check_new_news U w d of
                  (new_news, d') \<Rightarrow> Inr (d', relevant_news codes new_news)))"

text \<open>
  The notification part of \<open>scheduled_news_check\<close>: the messages sent, as pairs of chat
  and event, in order. \<open>SELECT DISTINCT user_id\<close> is answered from the same index, in
  ascending order; without the table it raises, which the outer handler logs.
\<close>

definition notify_users :: "db \<Rightarrow> news list \<Rightarrow> (int \<times> news) list" where
  "notify_users d new_news =
     (if new_news = [] then []
      else (case user_isins d of
              None \<Rightarrow> []
            | Some rows \<Rightarrow>
                concat (map (\<lambda>user_id.
                               map (Pair user_id)
                                 (relevant_news
                                    (sort (map snd (filter (\<lambda>row. fst row = user_id) rows)))
                                    new_news))
                          (sort (remdups (map fst rows))))))"

definition scheduled_news_check :: "unicode \<Rightarrow> world \<Rightarrow> db \<Rightarrow> db \<times> (int \<times> news) list" where
  "scheduled_news_check U w d =
     (case check_new_news U w d of (new_news, d') \<Rightarrow> (d', notify_users d' new_news))"

section \<open>Notions of the specification\<close>

text \<open>Of the events of a list that share a \<open>news_id\<close>, the first one only.\<close>

fun first_per_id :: "news list \<Rightarrow> news list" where
  "first_per_id [] = []"
| "first_per_id (n # ns) = n # filter (\<lambda>m. news_id m \<noteq> news_id n) (first_per_id ns)"

text \<open>The fields \<open>parse_news_page\<close> reads from a page that the parser accepts.\<close>

definition fields_of :: "unicode \<Rightarrow> world \<Rightarrow> ustring \<Rightarrow> news_details" where
  "fields_of U w text =
     (case parse_news_page U w text of
        Inr p \<Rightarrow> p
      | Inl e \<Rightarrow> \<lparr>d_title = [], d_isin = None, d_event_type = [], d_payment_amount = None,
                  d_published_date = []\<rparr>)"

text \<open>The candidate the loop of \<open>get_recent_news\<close> builds from one anchor with the
  attribute \<open>href\<close>.\<close>

definition candidate_of :: "unicode \<Rightarrow> world \<Rightarrow> ustring \<Rightarrow> element \<Rightarrow> ustring \<Rightarrow> news" where
  "candidate_of U w text element href =
     \<lparr>news_id = last_segment href,
      news_url = (if prefix (str ''/'') href then base_url @ href else href),
      title = (if get_text_strip element \<noteq> [] then get_text_strip element else str_no_title),
      isin = d_isin (fields_of U w text),
      event_type = d_event_type (fields_of U w text),
      payment_amount = d_payment_amount (fields_of U w text),
      published_date = d_published_date (fields_of U w text)\<rparr>"

text \<open>\<open>element.get('href')\<close> of a tag that has the attribute.\<close>

definition href_of :: "element \<Rightarrow> ustring" where
  "href_of e = (case el_href e of Some h \<Rightarrow> h | None \<Rightarrow> [])"

text \<open>\<open>RU\<close> followed by exactly ten characters that are digits or capital letters.\<close>

definition isin_pattern :: "ustring \<Rightarrow> bool" where
  "isin_pattern s = (length s = 12 \<and> take 2 s = str ''RU'' \<and> list_all isin_char (drop 2 s))"

text \<open>The same \<open>add_isin_tracking\<close> call made \<open>k\<close> times: the database after it.\<close>

definition add_repeatedly :: "unicode \<Rightarrow> nat \<Rightarrow> db \<Rightarrow> ustring \<Rightarrow> int \<Rightarrow> db" where
  "add_repeatedly U k d isin_code user_id =
     ((\<lambda>d'. snd (add_isin_tracking U d' isin_code user_id)) ^^ k) d"

text \<open>The codes a subscriber tracks: the rows of the subscriber, none without the table.\<close>

definition tracked_codes :: "db \<Rightarrow> int \<Rightarrow> ustring list" where
  "tracked_codes d user_id =
     (case user_isins d of
        None \<Rightarrow> []
      | Some rows \<Rightarrow> sort (map snd (filter (\<lambda>row. fst row = user_id) rows)))"

text \<open>The events of a list of messages that went to one chat.\<close>

definition sent_to :: "int \<Rightarrow> (int \<times> news) list \<Rightarrow> news list" where
  "sent_to user_id messages = map snd (filter (\<lambda>m. fst m = user_id) messages)"

text \<open>The shape \<open>DD.MM.YYYY\<close>: ten characters, ASCII digits but for the two points.\<close>

definition is_dd_mm_yyyy :: "ustring \<Rightarrow> bool" where
  "is_dd_mm_yyyy s =
     (length s = 10 \<and> s ! 2 = of_char (CHR ''.'') \<and> s ! 5 = of_char (CHR ''.'')
      \<and> list_all (\<lambda>c. 48 \<le> c \<and> c \<le> 57)
           [s ! 0, s ! 1, s ! 3, s ! 4, s ! 6, s ! 7, s ! 8, s ! 9])"

text \<open>
  The path of a reference is what precedes its query and its fragment; the last segment
  of the path is its last piece between slashes, a slash at the end of the path not
  counted. A site path begins with one slash, not two; a plain item path has no query,
  no fragment and no slash at its end.
\<close>

definition path_of :: "ustring \<Rightarrow> ustring" where
  "path_of href =
     takeWhile (\<lambda>c. c \<noteq> of_char (CHR ''?'') \<and> c \<noteq> of_char (CHR ''#'')) href"

definition last_path_segment :: "ustring \<Rightarrow> ustring" where
  "last_path_segment href =
     last_segment (rev (dropWhile (\<lambda>c. c = of_char (CHR ''/'')) (rev (path_of href))))"

definition site_path :: "ustring \<Rightarrow> bool" where
  "site_path href = (prefix (str ''/'') href \<and> \<not> prefix (str ''//'') href)"

definition plain_item_path :: "ustring \<Rightarrow> bool" where
  "plain_item_path href = (path_of href = href \<and> last_segment href \<noteq> [])"

section \<open>Sample data\<close>

text \<open>
  A part of Python's Unicode tables, enough for the examples: the sharp s, whose upper
  case is \<open>SS\<close>, the long s and the dotless i, whose upper cases are \<open>S\<close> and \<open>I\<close>,
  the letters of the basic Cyrillic block U+0400 to U+045F, and the Arabic-Indic digits.
\<close>

definition sample_unicode :: unicode where
  "sample_unicode =
     \<lparr>upper_ext = (\<lambda>c. if c = 0xDF then [0x53, 0x53]
                        else if c = 0x17F then [0x53]
                        else if c = 0x131 then [0x49]
                        else if 0x430 \<le> c \<and> c \<le> 0x44F then [c - 0x20]
                        else if 0x450 \<le> c \<and> c \<le> 0x45F then [c - 0x50]
                        else [c]),
      lower_ext = (\<lambda>s i. if 0x410 \<le> s ! i \<and> s ! i \<le> 0x42F then [s ! i + 0x20]
                          else if 0x400 \<le> s ! i \<and> s ! i \<le> 0x40F then [s ! i + 0x50]
                          else [s ! i]),
      decimal_ext = (\<lambda>c. 0x660 \<le> c \<and> c \<le> 0x669)\<rparr>"

definition news_a :: news where
  "news_a = \<lparr>news_id = str ''101'', news_url = str ''https://nsddata.ru/ru/news/view/101'',
     title = str ''Coupon RU000A106SE5'', isin = Some (str ''RU000A106SE5''),
     event_type = str_unknown, payment_amount = None, published_date = str ''01.02.2024''\<rparr>"

definition news_b :: news where
  "news_b = \<lparr>news_id = str ''101'', news_url = str ''https://nsddata.ru/ru/news/view/101'',
     title = str ''Coupon, again'', isin = None, event_type = str_unknown,
     payment_amount = Some (str ''12.5''), published_date = str ''02.02.2024''\<rparr>"

definition news_c :: news where
  "news_c = \<lparr>news_id = str ''102'', news_url = str ''https://nsddata.ru/ru/news/view/102'',
     title = str ''Redemption RU000A999XX1'', isin = Some (str ''RU000A999XX1''),
     event_type = str_unknown, payment_amount = None, published_date = str ''02.02.2024''\<rparr>"

definition sample_index :: ustring where
  "sample_index = str ''<h1>News</h1><a href=/ru/news/view/101>Coupon</a><a href=/ru/news/view/102> Redemption </a>''"

definition sample_detail_101 :: ustring where
  "sample_detail_101 = str ''<h1>Coupon RU000A106SE5</h1><time>01.02.2024</time>''"

definition sample_detail_102 :: ustring where
  "sample_detail_102 = str ''<h1>Redemption RU000A999XX1</h1><time>02.02.2024</time>''"

text \<open>A page without heading and without date, its amount set off by a no-break space,
  and a piece of markup that \<open>html.parser\<close> rejects.\<close>

definition bare_page :: ustring where
  "bare_page = str ''<p class=lead>12,50'' @ [0xA0, 0x440, 0x443, 0x431] @ str ''</p>''"

definition rejected_markup :: ustring where
  "rejected_markup = str ''<![x[y]]>''"

definition sample_soup :: "ustring \<Rightarrow> element list option" where
  "sample_soup text =
     (if text = rejected_markup then None
      else if text = sample_index then
        Some [\<lparr>el_name = str ''h1'', el_href = None, el_class = None,
                el_strings = [str ''News'']\<rparr>,
              \<lparr>el_name = str ''a'', el_href = Some (str ''/ru/news/view/101''), el_class = None,
                el_strings = [str ''Coupon'']\<rparr>,
              \<lparr>el_name = str ''a'', el_href = Some (str ''/ru/news/view/102''), el_class = None,
                el_strings = [str '' Redemption '']\<rparr>]
      else if text = sample_detail_101 then
        Some [\<lparr>el_name = str ''h1'', el_href = None, el_class = None,
                el_strings = [str ''Coupon RU000A106SE5'']\<rparr>,
              \<lparr>el_name = str ''time'', el_href = None, el_class = None,
                el_strings = [str ''01.02.2024'']\<rparr>]
      else if text = sample_detail_102 then
        Some [\<lparr>el_name = str ''h1'', el_href = None, el_class = None,
                el_strings = [str ''Redemption RU000A999XX1'']\<rparr>,
              \<lparr>el_name = str ''time'', el_href = None, el_class = None,
                el_strings = [str ''02.02.2024'']\<rparr>]
      else if text = bare_page then
        Some [\<lparr>el_name = str ''p'', el_href = None, el_class = Some (str ''lead''),
                el_strings = [str ''12,50'' @ [0xA0, 0x440, 0x443, 0x431]]\<rparr>]
      else Some [])"

definition sample_site :: "ustring \<Rightarrow> http_result" where
  "sample_site url =
     (if url = str ''https://nsddata.ru/ru/news'' then HttpResponse 200 sample_index
      else if url = str ''https://nsddata.ru/ru/news/view/101''
        then HttpResponse 200 sample_detail_101
      else if url = str ''https://nsddata.ru/ru/news/view/102''
        then HttpResponse 200 sample_detail_102
      else HttpResponse 404 [])"

definition sample_world :: world where
  "sample_world = \<lparr>http_get = sample_site, soup_of = sample_soup,
                    today = \<lparr>day = 3, month = 11, year = 2026\<rparr>\<rparr>"

text \<open>The same, with the server answering 503, and with the request raising.\<close>

definition world_503 :: world where
  "world_503 = sample_world\<lparr>http_get := (\<lambda>url. HttpResponse 503 [])\<rparr>"

definition world_down :: world where
  "world_down = sample_world\<lparr>http_get := (\<lambda>url. RequestException)\<rparr>"

text \<open>An index whose links carry a query with a slash, end in a slash, or are relative
  to the directory of the page.\<close>

definition odd_links_world :: world where
  "odd_links_world = sample_world\<lparr>soup_of :=
     (\<lambda>text. Some [\<lparr>el_name = str ''a'',
                      el_href = Some (str ''/ru/news/view/101?from=/ru/news''),
                      el_class = None, el_strings = [str ''Coupon'']\<rparr>,
                    \<lparr>el_name = str ''a'', el_href = Some (str ''/ru/news/view/102/''),
                      el_class = None, el_strings = [str ''Redemption'']\<rparr>,
                    \<lparr>el_name = str ''a'', el_href = Some (str ''../ru/news/view/7''),
                      el_class = None, el_strings = [str ''Offer'']\<rparr>])\<rparr>"

definition subscribed_db :: db where
  "subscribed_db = \<lparr>tracked_news = [],
     user_isins = Some [(7, str ''RU000A106SE5''), (8, str ''RU000A999XX1''),
                        (7, str ''RU000A0JX0J2'')]\<rparr>"

section \<open>The ledger\<close>

lemma fst_save_all_Cons:
  "fst (save_all d (n # ns)) = fst (save_news d n) # fst (save_all (snd (save_news d n)) ns)"
  by (simp add: case_prod_unfold)

lemma snd_save_all_Cons:
  "snd (save_all d (n # ns)) = snd (save_all (snd (save_news d n)) ns)"
  by (simp add: case_prod_unfold)

lemma save_all_Nil: "fst (save_all d []) = [] \<and> snd (save_all d []) = d"
  by simp

lemma save_news_ids:
  "set (map news_id (tracked_news (snd (save_news d n)))) = insert (news_id n) (set (map news_id (tracked_news d)))"
  by (auto simp: save_news_def)

lemma save_all_ids:
  "set (map news_id (tracked_news (snd (save_all d ns)))) = set (map news_id (tracked_news d)) \<union> set (map news_id ns)"
proof (induction ns arbitrary: d)
  case Nil
  show ?case by simp
next
  case (Cons n ns)
  show ?case unfolding snd_save_all_Cons Cons.IH save_news_ids by auto
qed

lemma save_news_unique: "ledger_unique d \<Longrightarrow> ledger_unique (snd (save_news d n))"
  by (auto simp: save_news_def ledger_unique_def)

lemma save_all_unique: "ledger_unique d \<Longrightarrow> ledger_unique (snd (save_all d ns))"
proof (induction ns arbitrary: d)
  case Nil
  then show ?case by simp
next
  case (Cons n ns)
  from Cons.prems have "ledger_unique (snd (save_news d n))" by (rule save_news_unique)
  then have "ledger_unique (snd (save_all (snd (save_news d n)) ns))" by (rule Cons.IH)
  then show ?case by (simp only: snd_save_all_Cons)
qed

lemma save_news_known: "news_id n \<in> set (map news_id (tracked_news d)) \<Longrightarrow> save_news d n = (False, d)"
  by (simp add: save_news_def)

lemma save_all_known_none:
  "k \<in> set (map news_id (tracked_news d)) \<Longrightarrow>
   filter (\<lambda>(n, r). r \<and> news_id n = k) (zip ns (fst (save_all d ns))) = []"
proof (induction ns arbitrary: d)
  case Nil
  show ?case by simp
next
  case (Cons n ns)
  have k': "k \<in> set (map news_id (tracked_news (snd (save_news d n))))"
    using Cons.prems by (simp only: save_news_ids) simp
  have "\<not> (fst (save_news d n) \<and> news_id n = k)"
    using Cons.prems save_news_known [of n d] by auto
  then show ?case using Cons.IH [OF k'] by (simp add: fst_save_all_Cons del: save_all.simps)
qed

lemma save_all_once:
  "length (filter (\<lambda>(n, r). r \<and> news_id n = k) (zip ns (fst (save_all d ns)))) \<le> 1"
proof (induction ns arbitrary: d)
  case Nil
  show ?case by simp
next
  case (Cons n ns)
  show ?case
  proof (cases "fst (save_news d n) \<and> news_id n = k")
    case True
    then have "k \<in> set (map news_id (tracked_news (snd (save_news d n))))"
      by (simp only: save_news_ids) simp
    from save_all_known_none [OF this, of ns] show ?thesis
      using True by (simp add: fst_save_all_Cons del: save_all.simps)
  next
    case False
    then show ?thesis using Cons.IH [of "snd (save_news d n)"]
      by (auto simp add: fst_save_all_Cons simp del: save_all.simps)
  qed
qed

lemma save_all_take_Suc:
  "j < length ns \<Longrightarrow> snd (save_all d (take (Suc j) ns)) = snd (save_news (snd (save_all d (take j ns))) (ns ! j))"
proof (induction ns arbitrary: d j)
  case Nil
  then show ?case by simp
next
  case (Cons n ns)
  show ?case
  proof (cases j)
    case 0
    then show ?thesis by (simp add: snd_save_all_Cons del: save_all.simps(2))
  next
    case (Suc j')
    with Cons.prems have "j' < length ns" by simp
    from Cons.IH [OF this, of "snd (save_news d n)"] show ?thesis
      using Suc by (simp add: snd_save_all_Cons del: save_all.simps(2))
  qed
qed

lemma save_all_results:
  "j < length ns \<Longrightarrow> fst (save_all d ns) ! j = fst (save_news (snd (save_all d (take j ns))) (ns ! j))"
proof (induction ns arbitrary: d j)
  case Nil
  then show ?case by simp
next
  case (Cons n ns)
  show ?case
  proof (cases j)
    case 0
    then show ?thesis by (simp add: fst_save_all_Cons del: save_all.simps(2))
  next
    case (Suc j')
    with Cons.prems have "j' < length ns" by simp
    from Cons.IH [OF this, of "snd (save_news d n)"] show ?thesis
      using Suc by (simp add: fst_save_all_Cons snd_save_all_Cons del: save_all.simps(2))
  qed
qed

text \<open>
  Claim C2. In any run of \<open>save_news\<close> calls on a ledger that respects its \<open>UNIQUE\<close>
  constraint, at most one call with a given \<open>news_id\<close> returns true; the ledger still
  holds no \<open>news_id\<close> twice afterwards; a call that follows another call with the same
  \<open>news_id\<close> returns false and leaves the database as it was; and a call that returns
  true appends its record.
\<close>

theorem save_news_at_most_once:
  assumes "ledger_unique d"
  shows "length (filter (\<lambda>(n, r). r \<and> news_id n = k) (zip ns (fst (save_all d ns)))) \<le> 1
       \<and> ledger_unique (snd (save_all d ns))
       \<and> (\<forall>i j. i < j \<and> j < length ns \<and> news_id (ns ! i) = news_id (ns ! j) \<longrightarrow>
            save_news (snd (save_all d (take j ns))) (ns ! j) = (False, snd (save_all d (take j ns)))
            \<and> fst (save_all d ns) ! j = False)
       \<and> (\<forall>j < length ns. fst (save_all d ns) ! j \<longrightarrow>
            tracked_news (snd (save_all d (take (Suc j) ns)))
              = tracked_news (snd (save_all d (take j ns))) @ [ns ! j])"
proof (intro conjI allI impI)
  show "length (filter (\<lambda>(n, r). r \<and> news_id n = k) (zip ns (fst (save_all d ns)))) \<le> 1"
    by (rule save_all_once)
  show "ledger_unique (snd (save_all d ns))" using assms by (rule save_all_unique)
next
  fix i j
  assume h: "i < j \<and> j < length ns \<and> news_id (ns ! i) = news_id (ns ! j)"
  then have "take j ns ! i = ns ! i \<and> i < length (take j ns)" by simp
  then have "ns ! i \<in> set (take j ns)" by (metis nth_mem)
  then have "news_id (ns ! i) \<in> set (map news_id (take j ns))" by simp
  then have "news_id (ns ! j) \<in> set (map news_id (take j ns))" using h by simp
  then have "news_id (ns ! j) \<in> set (map news_id (tracked_news (snd (save_all d (take j ns)))))"
    by (simp only: save_all_ids) simp
  then show a: "save_news (snd (save_all d (take j ns))) (ns ! j) = (False, snd (save_all d (take j ns)))"
    by (simp add: save_news_def)
  show "fst (save_all d ns) ! j = False" using save_all_results [of j ns d] h a by simp
next
  fix j
  assume j: "j < length ns" and t: "fst (save_all d ns) ! j"
  have "fst (save_news (snd (save_all d (take j ns))) (ns ! j))" using save_all_results [OF j, of d] t by simp
  then show "tracked_news (snd (save_all d (take (Suc j) ns))) = tracked_news (snd (save_all d (take j ns))) @ [ns ! j]"
    using save_all_take_Suc [OF j, of d] by (simp add: save_news_def split: if_splits)
qed

theorem save_news_at_most_once_witness:
  "ledger_unique setup_database
   \<and> fst (save_all setup_database [news_a, news_b, news_a]) = [True, False, False]
   \<and> length (filter (\<lambda>(n, r). r \<and> news_id n = str ''101'')
        (zip [news_a, news_b, news_a] (fst (save_all setup_database [news_a, news_b, news_a])))) \<le> 1
   \<and> ledger_unique (snd (save_all setup_database [news_a, news_b, news_a]))
   \<and> save_news (snd (save_all setup_database [news_a])) news_b
       = (False, snd (save_all setup_database [news_a]))
   \<and> tracked_news (snd (save_all setup_database [news_a])) = [news_a]"
proof -
  have h: "ledger_unique setup_database"
    by (simp add: ledger_unique_def setup_database_def)
  show ?thesis
    using h save_news_at_most_once [OF h, of "str ''101''" "[news_a, news_b, news_a]"]
    by (simp add: setup_database_def save_news_def news_a_def news_b_def ledger_unique_def)
qed

section \<open>The fetcher\<close>

lemma contains_set: "contains n h \<Longrightarrow> set n \<subseteq> set h"
proof (induction h)
  case Nil
  then show ?case by simp
next
  case (Cons c cs)
  from Cons.prems have "prefix n (c # cs) \<or> contains n cs" by simp
  then show ?case
  proof
    assume "prefix n (c # cs)"
    then show ?thesis by (rule set_mono_prefix)
  next
    assume "contains n cs"
    then have "set n \<subseteq> set cs" by (rule Cons.IH)
    then show ?thesis by auto
  qed
qed

lemma contains_slash:
  "contains (str ''/ru/news/view/'') h \<Longrightarrow> of_char (CHR ''/'') \<in> set h \<and> h \<noteq> []"
proof -
  assume "contains (str ''/ru/news/view/'') h"
  then have "set (str ''/ru/news/view/'') \<subseteq> set h" by (rule contains_set)
  moreover have "of_char (CHR ''/'') \<in> set (str ''/ru/news/view/'')" by (simp add: str_def)
  ultimately show ?thesis by auto
qed

lemma parse_news_page_accepted:
  "soup_of w body = Some soup \<Longrightarrow> parse_news_page U w body = Inr (fields_of U w body)"
proof -
  assume "soup_of w body = Some soup"
  then have "\<exists>p. parse_news_page U w body = Inr p"
    by (simp add: parse_news_page_def Let_def)
  then show ?thesis by (auto simp: fields_of_def)
qed

lemma collect_links_eq:
  assumes "soup_of w body = Some soup"
  shows "collect_links U w body es acc =
     Inr (acc @ map (\<lambda>e. candidate_of U w body e (href_of e))
             (filter (\<lambda>e. case el_href e of None \<Rightarrow> False
                          | Some h \<Rightarrow> contains (str ''/ru/news/view/'') h) es))"
proof (induction es arbitrary: acc)
  case Nil
  show ?case by simp
next
  case (Cons e es)
  note p = parse_news_page_accepted [OF assms, of U]
  show ?case
  proof (cases "el_href e")
    case None
    then show ?thesis using Cons.IH [of acc] by simp
  next
    case (Some h)
    show ?thesis
    proof (cases "contains (str ''/ru/news/view/'') h")
      case True
      then have "of_char (CHR ''/'') \<in> set h \<and> h \<noteq> []" by (rule contains_slash)
      then show ?thesis using Some True Cons.IH p
        by (simp add: candidate_of_def href_of_def Let_def)
    next
      case False
      then show ?thesis using Some Cons.IH [of acc] by simp
    qed
  qed
qed

lemma news_elements_links:
  "filter (\<lambda>e. case el_href e of None \<Rightarrow> False | Some h \<Rightarrow> contains (str ''/ru/news/view/'') h)
     (take k (news_elements soup)) = take k (news_elements soup)"
proof -
  have "\<forall>e \<in> set (take k (news_elements soup)).
          (case el_href e of None \<Rightarrow> False | Some h \<Rightarrow> contains (str ''/ru/news/view/'') h)"
    using set_take_subset [of k "news_elements soup"] by (auto simp: news_elements_def)
  then show ?thesis by (simp add: filter_id_conv)
qed

lemma get_recent_news_ok:
  assumes "http_get w (base_url @ str ''/ru/news'') = HttpResponse 200 body"
    and "soup_of w body = Some soup"
  shows "get_recent_news U w =
           map (\<lambda>e. candidate_of U w body e (href_of e)) (take 10 (news_elements soup))"
  using assms
  by (simp add: get_recent_news_def collect_links_eq [OF assms(2)] news_elements_links)

lemma get_recent_news_failed:
  assumes "http_get w (base_url @ str ''/ru/news'') = RequestException
           \<or> (\<exists>body. http_get w (base_url @ str ''/ru/news'') = HttpResponse status body
                      \<and> status \<noteq> 200)"
  shows "get_recent_news U w = []"
  using assms by (auto simp: get_recent_news_def)

lemma get_recent_news_rejected:
  assumes "http_get w (base_url @ str ''/ru/news'') = HttpResponse 200 body"
    and "soup_of w body = None"
  shows "get_recent_news U w = []"
  using assms by (simp add: get_recent_news_def)

lemma get_recent_news_ids_clock:
  "map news_id (get_recent_news U (w\<lparr>today := t\<rparr>)) = map news_id (get_recent_news U w)"
proof (cases "http_get w (base_url @ str ''/ru/news'')")
  case RequestException
  then show ?thesis by (simp add: get_recent_news_def)
next
  case (HttpResponse status body)
  show ?thesis
  proof (cases "status = 200")
    case False
    then show ?thesis using HttpResponse by (simp add: get_recent_news_def)
  next
    case True
    have a: "http_get (w\<lparr>today := t\<rparr>) (base_url @ str ''/ru/news'') = HttpResponse 200 body"
      using HttpResponse True by simp
    have b: "http_get w (base_url @ str ''/ru/news'') = HttpResponse 200 body"
      using HttpResponse True by simp
    show ?thesis
    proof (cases "soup_of w body")
      case None
      then have "soup_of (w\<lparr>today := t\<rparr>) body = None" by simp
      then show ?thesis
        using None get_recent_news_rejected [OF a] get_recent_news_rejected [OF b] by simp
    next
      case (Some soup)
      then have c: "soup_of (w\<lparr>today := t\<rparr>) body = Some soup" by simp
      show ?thesis unfolding get_recent_news_ok [OF a c] get_recent_news_ok [OF b Some]
        by (simp add: candidate_of_def)
    qed
  qed
qed

lemma sample_request:
  "http_get sample_world (base_url @ str ''/ru/news'') = HttpResponse 200 sample_index"
  by (simp add: sample_world_def sample_site_def base_url_def str_def)

lemma sample_index_soup:
  "soup_of sample_world sample_index =
     Some [\<lparr>el_name = str ''h1'', el_href = None, el_class = None,
             el_strings = [str ''News'']\<rparr>,
           \<lparr>el_name = str ''a'', el_href = Some (str ''/ru/news/view/101''), el_class = None,
             el_strings = [str ''Coupon'']\<rparr>,
           \<lparr>el_name = str ''a'', el_href = Some (str ''/ru/news/view/102''), el_class = None,
             el_strings = [str '' Redemption '']\<rparr>]"
proof -
  have "sample_index \<noteq> rejected_markup"
    by (simp add: sample_index_def rejected_markup_def str_def)
  then show ?thesis by (simp add: sample_world_def sample_soup_def)
qed

lemma sample_anchors:
  "news_elements
     [\<lparr>el_name = str ''h1'', el_href = None, el_class = None, el_strings = [str ''News'']\<rparr>,
      \<lparr>el_name = str ''a'', el_href = Some (str ''/ru/news/view/101''), el_class = None,
        el_strings = [str ''Coupon'']\<rparr>,
      \<lparr>el_name = str ''a'', el_href = Some (str ''/ru/news/view/102''), el_class = None,
        el_strings = [str '' Redemption '']\<rparr>]
   = [\<lparr>el_name = str ''a'', el_href = Some (str ''/ru/news/view/101''), el_class = None,
        el_strings = [str ''Coupon'']\<rparr>,
      \<lparr>el_name = str ''a'', el_href = Some (str ''/ru/news/view/102''), el_class = None,
        el_strings = [str '' Redemption '']\<rparr>]"
  by (simp add: news_elements_def str_def)

lemma sample_candidate_ids:
  "map news_id (get_recent_news U sample_world) = [str ''101'', str ''102'']"
  unfolding get_recent_news_ok [OF sample_request sample_index_soup] sample_anchors
  by (simp add: candidate_of_def href_of_def last_segment_def str_def)

section \<open>The ingestion cycle\<close>

lemma check_loop_eq:
  "check_loop d cs acc =
     (acc @ filter (\<lambda>n. news_id n \<notin> set (map news_id (tracked_news d))) (first_per_id cs),
      d\<lparr>tracked_news := tracked_news d
           @ filter (\<lambda>n. news_id n \<notin> set (map news_id (tracked_news d))) (first_per_id cs)\<rparr>)"
proof (induction cs arbitrary: d acc)
  case Nil
  show ?case by simp
next
  case (Cons n cs)
  let ?ids = "set (map news_id (tracked_news d))"
  show ?case
  proof (cases "news_id n \<in> ?ids")
    case True
    have "filter (\<lambda>m. news_id m \<notin> ?ids) (filter (\<lambda>m. news_id m \<noteq> news_id n) (first_per_id cs))
          = filter (\<lambda>m. news_id m \<notin> ?ids) (first_per_id cs)"
      using True by (auto intro: filter_cong)
    then show ?thesis using True Cons.IH [of d acc] by (simp add: is_news_tracked_def)
  next
    case False
    let ?d' = "d\<lparr>tracked_news := tracked_news d @ [n]\<rparr>"
    have s: "save_news d n = (True, ?d')" using False by (simp add: save_news_def)
    have f: "filter (\<lambda>m. news_id m \<notin> set (map news_id (tracked_news ?d'))) (first_per_id cs)
          = filter (\<lambda>m. news_id m \<notin> ?ids) (filter (\<lambda>m. news_id m \<noteq> news_id n) (first_per_id cs))"
      by (auto intro: filter_cong)
    show ?thesis using False s Cons.IH [of ?d' "acc @ [n]"] f by (simp add: is_news_tracked_def)
  qed
qed

lemma set_first_per_id: "set (map news_id (first_per_id cs)) = set (map news_id cs)"
proof (induction cs)
  case Nil
  show ?case by simp
next
  case (Cons n cs)
  have "news_id ` set (filter (\<lambda>m. news_id m \<noteq> news_id n) (first_per_id cs))
        = news_id ` set (first_per_id cs) - {news_id n}" by auto
  then show ?case using Cons.IH by auto
qed

lemma check_loop_ids:
  "set (map news_id (tracked_news (snd (check_loop d cs acc))))
     = set (map news_id (tracked_news d)) \<union> set (map news_id cs)"
proof -
  have "news_id ` set (filter (\<lambda>n. news_id n \<notin> news_id ` set (tracked_news d)) (first_per_id cs))
        = news_id ` set (first_per_id cs) - news_id ` set (tracked_news d)" by auto
  then show ?thesis using set_first_per_id [of cs] by (auto simp: check_loop_eq)
qed

lemma check_loop_known:
  "set (map news_id cs) \<subseteq> set (map news_id (tracked_news d)) \<Longrightarrow> fst (check_loop d cs acc) = acc"
proof -
  assume a: "set (map news_id cs) \<subseteq> set (map news_id (tracked_news d))"
  have "set (map news_id (first_per_id cs)) \<subseteq> set (map news_id (tracked_news d))"
    using a by (simp only: set_first_per_id)
  then have "filter (\<lambda>n. news_id n \<notin> set (map news_id (tracked_news d))) (first_per_id cs) = []"
    by (auto simp: filter_empty_conv)
  then show ?thesis by (simp add: check_loop_eq)
qed

lemma first_per_id_distinct: "distinct (map news_id cs) \<Longrightarrow> first_per_id cs = cs"
proof (induction cs)
  case Nil
  show ?case by simp
next
  case (Cons n cs)
  then have out: "news_id n \<notin> news_id ` set cs" by simp
  have "\<forall>m \<in> set cs. news_id m \<noteq> news_id n"
  proof
    fix m
    assume "m \<in> set cs"
    then have "news_id m \<in> news_id ` set cs" by (rule imageI)
    then show "news_id m \<noteq> news_id n" using out by metis
  qed
  then have "filter (\<lambda>m. news_id m \<noteq> news_id n) cs = cs" by (simp add: filter_id_conv)
  then show ?case using Cons by simp
qed

text \<open>On a ledger that holds none of the candidates, whose identifiers all differ, the
  call returns the candidates as they were fetched.\<close>

lemma check_new_news_fresh:
  assumes "distinct (map news_id (get_recent_news U w))"
    and "set (map news_id (get_recent_news U w)) \<inter> set (map news_id (tracked_news d)) = {}"
  shows "fst (check_new_news U w d) = get_recent_news U w"
proof -
  have "\<forall>n \<in> set (get_recent_news U w). news_id n \<notin> set (map news_id (tracked_news d))"
    using assms(2) by auto
  then have "filter (\<lambda>n. news_id n \<notin> set (map news_id (tracked_news d))) (get_recent_news U w)
             = get_recent_news U w"
    by (simp add: filter_id_conv)
  then show ?thesis
    by (simp add: check_new_news_def check_loop_eq first_per_id_distinct [OF assms(1)])
qed

text \<open>
  Claim C1, as amended. Whatever the ledger holds and whatever the index request gives,
  a call of \<open>check_new_news\<close> returns, in the order of the page, the fetched candidates
  whose \<open>news_id\<close> the ledger does not hold yet, the first one for each \<open>news_id\<close>; and
  the next call against the same site, whatever the clock then shows, returns the empty
  list.
\<close>

theorem check_new_news_twice:
  "fst (check_new_news U w d)
     = filter (\<lambda>n. news_id n \<notin> set (map news_id (tracked_news d)))
         (first_per_id (get_recent_news U w))
   \<and> fst (check_new_news U (w\<lparr>today := t\<rparr>) (snd (check_new_news U w d))) = []"
proof
  show "fst (check_new_news U w d)
     = filter (\<lambda>n. news_id n \<notin> set (map news_id (tracked_news d)))
         (first_per_id (get_recent_news U w))"
    by (simp add: check_new_news_def check_loop_eq)
  have "set (map news_id (get_recent_news U (w\<lparr>today := t\<rparr>)))
        \<subseteq> set (map news_id (tracked_news (snd (check_new_news U w d))))"
    unfolding get_recent_news_ids_clock check_new_news_def check_loop_ids by simp
  then show "fst (check_new_news U (w\<lparr>today := t\<rparr>) (snd (check_new_news U w d))) = []"
    unfolding check_new_news_def [of U "w\<lparr>today := t\<rparr>"] by (rule check_loop_known)
qed

lemma different_ids: "str ''101'' \<noteq> str ''102''"
  by (simp add: str_def)

theorem check_new_news_twice_witness:
  "map news_id (fst (check_new_news sample_unicode sample_world setup_database))
     = [str ''101'', str ''102'']
   \<and> fst (check_new_news sample_unicode
            (sample_world\<lparr>today := \<lparr>day = 4, month = 11, year = 2026\<rparr>\<rparr>)
            (snd (check_new_news sample_unicode sample_world setup_database))) = []"
proof -
  obtain a b where ab: "get_recent_news sample_unicode sample_world = [a, b]"
    using sample_candidate_ids [of sample_unicode]
    by (cases "get_recent_news sample_unicode sample_world") auto
  then have "news_id a = str ''101'' \<and> news_id b = str ''102''"
    using sample_candidate_ids [of sample_unicode] by simp
  then show ?thesis
    using check_new_news_twice [of sample_unicode sample_world setup_database
        "\<lparr>day = 4, month = 11, year = 2026\<rparr>"] different_ids
    by (simp add: ab setup_database_def)
qed

text \<open>
  The claim as stated fails where the ledger already holds one of the candidates: the
  sample index lists the items 101 and 102, and with 101 in the ledger the call returns
  the item 102 alone, not the fetched candidates.
\<close>

theorem check_new_news_twice_counterexample:
  "fst (check_new_news sample_unicode sample_world (snd (save_news setup_database news_a)))
     \<noteq> get_recent_news sample_unicode sample_world"
proof -
  have "map news_id (fst (check_new_news sample_unicode sample_world
                            (snd (save_news setup_database news_a))))
        = [str ''102'']"
  proof -
    obtain a b where ab: "get_recent_news sample_unicode sample_world = [a, b]"
      using sample_candidate_ids [of sample_unicode]
      by (cases "get_recent_news sample_unicode sample_world") auto
    then have "news_id a = str ''101'' \<and> news_id b = str ''102''"
      using sample_candidate_ids [of sample_unicode] by simp
    then show ?thesis using different_ids
      by (simp add: check_new_news_def check_loop_eq ab setup_database_def save_news_def
          news_a_def)
  qed
  then show ?thesis using sample_candidate_ids [of sample_unicode] by auto
qed

text \<open>
  Claim C7. When the index request raises (network error, timeout) or answers with a
  status other than 200, \<open>check_new_news\<close> returns the empty list and the database it
  was given, unchanged.
\<close>

theorem fetch_failure_isolated:
  assumes "http_get w (base_url @ str ''/ru/news'') = RequestException
           \<or> (\<exists>body. http_get w (base_url @ str ''/ru/news'') = HttpResponse status body
                      \<and> status \<noteq> 200)"
  shows "check_new_news U w d = ([], d)"
  using get_recent_news_failed [OF assms] by (simp add: check_new_news_def)

theorem fetch_failure_isolated_witness:
  "check_new_news sample_unicode world_503 (snd (save_news setup_database news_a))
     = ([], snd (save_news setup_database news_a))
   \<and> check_new_news sample_unicode world_down (snd (save_news setup_database news_a))
     = ([], snd (save_news setup_database news_a))"
proof
  have "http_get world_503 (base_url @ str ''/ru/news'') = HttpResponse 503 []
        \<and> (503::int) \<noteq> 200"
    by (simp add: world_503_def)
  then have h: "http_get world_503 (base_url @ str ''/ru/news'') = RequestException
      \<or> (\<exists>body. http_get world_503 (base_url @ str ''/ru/news'') = HttpResponse 503 body
                 \<and> (503::int) \<noteq> 200)"
    by blast
  show "check_new_news sample_unicode world_503 (snd (save_news setup_database news_a))
     = ([], snd (save_news setup_database news_a))"
    by (rule fetch_failure_isolated [OF h])
  have "http_get world_down (base_url @ str ''/ru/news'') = RequestException"
    by (simp add: world_down_def)
  then have g: "http_get world_down (base_url @ str ''/ru/news'') = RequestException
      \<or> (\<exists>body. http_get world_down (base_url @ str ''/ru/news'') = HttpResponse 0 body
                 \<and> (0::int) \<noteq> 200)"
    by blast
  show "check_new_news sample_unicode world_down (snd (save_news setup_database news_a))
     = ([], snd (save_news setup_database news_a))"
    by (rule fetch_failure_isolated [OF g])
qed


section \<open>The subscription store and the \<open>/add\<close> command\<close>

lemma isin_char_ascii: "isin_char c \<Longrightarrow> ascii_upper c = c \<and> c < 128"
  by (auto simp: isin_char_def ascii_upper_def)

lemma py_upper_Cons:
  "py_upper U (c # cs) = (if c < 128 then [ascii_upper c] else upper_ext U c) @ py_upper U cs"
  by (simp add: py_upper_def)

lemma py_upper_isin_chars: "list_all isin_char s \<Longrightarrow> py_upper U s = s"
proof (induction s)
  case Nil
  show ?case by (simp add: py_upper_def)
next
  case (Cons c cs)
  then have "ascii_upper c = c \<and> c < 128" by (simp add: isin_char_ascii)
  then show ?case using Cons by (simp add: py_upper_Cons)
qed

lemma isin_pattern_split:
  "isin_pattern s \<Longrightarrow> \<exists>zs. s = str ''RU'' @ zs \<and> length zs = 10 \<and> list_all isin_char zs"
proof -
  assume a: "isin_pattern s"
  then have "take 2 s = str ''RU''" by (simp add: isin_pattern_def)
  then have "s = str ''RU'' @ drop 2 s" using append_take_drop_id [of 2 s] by simp
  moreover have "length (drop 2 s) = 10 \<and> list_all isin_char (drop 2 s)"
    using a by (simp add: isin_pattern_def)
  ultimately show ?thesis by blast
qed

lemma isin_pattern_chars: "isin_pattern s \<Longrightarrow> list_all isin_char s"
proof -
  assume "isin_pattern s"
  then obtain zs where "s = str ''RU'' @ zs" and "list_all isin_char zs"
    using isin_pattern_split by blast
  then show ?thesis by (simp add: isin_char_def str_def)
qed

lemma py_upper_isin_pattern: "isin_pattern s \<Longrightarrow> py_upper U s = s"
  by (rule py_upper_isin_chars) (rule isin_pattern_chars)

lemma py_strip_no_final_space: "py_strip s \<noteq> [] \<Longrightarrow> \<not> py_isspace (last (py_strip s))"
proof -
  let ?t = "dropWhile py_isspace (rev (dropWhile py_isspace s))"
  assume "py_strip s \<noteq> []"
  then have t: "?t \<noteq> []" by (simp add: py_strip_def)
  then have "\<not> py_isspace (hd ?t)" by (rule hd_dropWhile)
  moreover have "last (py_strip s) = hd ?t" using t by (simp add: py_strip_def last_rev)
  ultimately show ?thesis by simp
qed

lemma isin_at_exact: "(isin_at t \<and> drop 12 t = []) = isin_pattern t"
proof
  assume a: "isin_at t \<and> drop 12 t = []"
  then have l: "length t = 12" by (simp add: isin_at_def)
  from a obtain zs where "t = str ''RU'' @ zs" by (auto simp: isin_at_def prefix_def)
  then have "take 2 t = str ''RU''" by (simp add: str_def)
  moreover have "take 10 (drop 2 t) = drop 2 t" using l by simp
  ultimately show "isin_pattern t" using a l by (simp add: isin_at_def isin_pattern_def)
next
  assume a: "isin_pattern t"
  then have l: "length t = 12" by (simp add: isin_pattern_def)
  from a obtain zs where z: "t = str ''RU'' @ zs" using isin_pattern_split by blast
  have p: "prefix (str ''RU'') t" unfolding z by (rule prefixI) simp
  have "take 10 (drop 2 t) = drop 2 t" using l by simp
  then show "isin_at t \<and> drop 12 t = []" using a p l by (simp add: isin_at_def isin_pattern_def)
qed

text \<open>After \<open>strip\<close> no newline is left at the end, so the \<open>$\<close> of the pattern stands
  for the end of the code.\<close>

lemma re_match_isin_strip: "re_match_isin (py_strip s) = isin_pattern (py_strip s)"
proof -
  let ?t = "py_strip s"
  have nl: "drop 12 ?t \<noteq> [0x0A]"
  proof
    assume d: "drop 12 ?t = [0x0A]"
    then have "length (drop 12 ?t) = 1" by simp
    then have l: "12 < length ?t" by simp
    then have ne: "?t \<noteq> []" by auto
    have "last (drop 12 ?t) = last ?t" using l by (rule last_drop)
    then have "py_isspace (last ?t)" using d by (simp add: py_isspace_def)
    then show False using py_strip_no_final_space [OF ne] by simp
  qed
  show ?thesis unfolding re_match_isin_def using nl isin_at_exact [of ?t] by blast
qed

lemma add_isin_tracking_cases:
  "add_isin_tracking U d c u =
     (if (u, py_upper U c) \<in> set (case user_isins d of None \<Rightarrow> [] | Some rs \<Rightarrow> rs)
      then (False, d\<lparr>user_isins := Some (case user_isins d of None \<Rightarrow> [] | Some rs \<Rightarrow> rs)\<rparr>)
      else (True, d\<lparr>user_isins := Some ((case user_isins d of None \<Rightarrow> [] | Some rs \<Rightarrow> rs)
                                           @ [(u, py_upper U c)])\<rparr>))"
  by (simp only: add_isin_tracking_def Let_def)

lemma add_isin_tracking_rows:
  "user_isins (snd (add_isin_tracking U d c u))
     = Some ((case user_isins d of None \<Rightarrow> [] | Some rs \<Rightarrow> rs)
             @ (if (u, py_upper U c) \<in> set (case user_isins d of None \<Rightarrow> [] | Some rs \<Rightarrow> rs)
                then [] else [(u, py_upper U c)]))"
  by (simp add: add_isin_tracking_cases)

lemma add_isin_tracking_result:
  "fst (add_isin_tracking U d c u)
     = ((u, py_upper U c) \<notin> set (case user_isins d of None \<Rightarrow> [] | Some rs \<Rightarrow> rs))"
  by (simp add: add_isin_tracking_cases)

lemma add_isin_tracking_ledger:
  "tracked_news (snd (add_isin_tracking U d c u)) = tracked_news d"
  by (simp add: add_isin_tracking_cases)

lemma add_isin_tracking_again:
  "add_isin_tracking U (snd (add_isin_tracking U d c u)) c u
     = (False, snd (add_isin_tracking U d c u))"
proof -
  let ?d = "snd (add_isin_tracking U d c u)"
  obtain rows where r: "user_isins ?d = Some rows" and m: "(u, py_upper U c) \<in> set rows"
    by (simp add: add_isin_tracking_rows)
  have "?d\<lparr>user_isins := Some rows\<rparr> = ?d" using r by simp
  then show ?thesis using r m by (simp add: add_isin_tracking_cases [of U ?d])
qed

lemma add_isin_tracking_unique:
  "subscriptions_unique d \<Longrightarrow> subscriptions_unique (snd (add_isin_tracking U d c u))"
proof -
  assume a: "subscriptions_unique d"
  have "distinct (case user_isins d of None \<Rightarrow> [] | Some rs \<Rightarrow> rs)"
    using a by (cases "user_isins d") (simp_all add: subscriptions_unique_def)
  then show ?thesis by (simp add: subscriptions_unique_def add_isin_tracking_rows)
qed

lemma add_repeatedly_Suc:
  "add_repeatedly U (Suc k) d c u = snd (add_isin_tracking U d c u)"
proof (induction k)
  case 0
  show ?case by (simp add: add_repeatedly_def)
next
  case (Suc k)
  have "add_repeatedly U (Suc (Suc k)) d c u
        = snd (add_isin_tracking U (add_repeatedly U (Suc k) d c u) c u)"
    by (simp add: add_repeatedly_def)
  then show ?case using Suc by (simp add: add_isin_tracking_again)
qed

lemma count_list_distinct: "distinct xs \<Longrightarrow> x \<in> set xs \<Longrightarrow> count_list xs x = 1"
  by (induction xs) (auto simp: count_list_0_iff)

lemma distinct_codes_of_user:
  "distinct rows \<Longrightarrow> distinct (map snd (filter (\<lambda>row. fst row = u) rows))"
  by (induction rows) (auto simp: image_iff)

lemma listed_once:
  assumes "subscriptions_unique d"
  shows "\<exists>codes. get_user_isins (snd (add_isin_tracking U d c u)) u = Inr codes
                 \<and> count_list codes (py_upper U c) = 1"
proof -
  let ?d = "snd (add_isin_tracking U d c u)"
  obtain rows where r: "user_isins ?d = Some rows" and m: "(u, py_upper U c) \<in> set rows"
    by (auto simp: add_isin_tracking_rows)
  let ?codes = "map snd (filter (\<lambda>row. fst row = u) rows)"
  have "subscriptions_unique ?d" using assms by (rule add_isin_tracking_unique)
  then have "distinct rows" using r by (simp add: subscriptions_unique_def)
  then have "distinct ?codes" by (rule distinct_codes_of_user)
  then have "distinct (sort ?codes)" by simp
  moreover have "py_upper U c \<in> set ?codes" using m by force
  then have "py_upper U c \<in> set (sort ?codes)" by simp
  ultimately have "count_list (sort ?codes) (py_upper U c) = 1"
    by (rule count_list_distinct)
  then show ?thesis using r by (simp add: get_user_isins_def)
qed

lemma upper_sample_small: "py_upper sample_unicode (str ''ru000a106se5'') = str ''RU000A106SE5''"
  by (simp add: py_upper_def ascii_upper_def str_def)

lemma upper_sample_capital: "py_upper U (str ''RU000A106SE5'') = str ''RU000A106SE5''"
  by (simp add: py_upper_def ascii_upper_def str_def)

lemma upper_sample_short: "py_upper U (str ''RU123'') = str ''RU123''"
  by (simp add: py_upper_def ascii_upper_def str_def)

lemma upper_sample_sharp_s:
  "py_upper sample_unicode (str ''RU00000000'' @ [0xDF]) = str ''RU00000000SS''"
  by (simp add: py_upper_def ascii_upper_def str_def sample_unicode_def)

lemma strip_sample: "py_strip (str ''RU000A106SE5'') = str ''RU000A106SE5''"
  by (simp add: py_strip_def py_isspace_def str_def)

lemma strip_sample_short: "py_strip (str ''RU123'') = str ''RU123''"
  by (simp add: py_strip_def py_isspace_def str_def)

lemma strip_sample_sharp_s: "py_strip (str ''RU00000000SS'') = str ''RU00000000SS''"
  by (simp add: py_strip_def py_isspace_def str_def)

lemma sample_is_isin: "isin_pattern (str ''RU000A106SE5'')"
  by (simp add: isin_pattern_def isin_char_def str_def)

lemma sharp_s_is_isin: "isin_pattern (str ''RU00000000SS'')"
  by (simp add: isin_pattern_def isin_char_def str_def)

lemma short_is_no_isin: "\<not> isin_pattern (str ''RU123'')"
  by (simp add: isin_pattern_def str_def)

text \<open>
  Claim C6, as amended. On a table that respects \<open>UNIQUE(user_id, isin)\<close>, the first of
  two \<open>add_isin_tracking\<close> calls with the same pair returns true exactly when the pair
  with the code in capitals is not stored yet; the second call returns false and leaves
  the database as the first call left it; and after any positive number of such calls
  the codes listed for the subscriber contain the code in capitals exactly once.
\<close>

theorem add_isin_tracking_twice:
  assumes "subscriptions_unique d"
  shows "fst (add_isin_tracking U d c u)
           = ((u, py_upper U c) \<notin> set (case user_isins d of None \<Rightarrow> [] | Some rows \<Rightarrow> rows))
       \<and> add_isin_tracking U (snd (add_isin_tracking U d c u)) c u
           = (False, snd (add_isin_tracking U d c u))
       \<and> (\<forall>k > 0. \<exists>codes. get_user_isins (add_repeatedly U k d c u) u = Inr codes
                          \<and> count_list codes (py_upper U c) = 1)"
proof (intro conjI allI impI)
  show "fst (add_isin_tracking U d c u)
           = ((u, py_upper U c) \<notin> set (case user_isins d of None \<Rightarrow> [] | Some rows \<Rightarrow> rows))"
    by (rule add_isin_tracking_result)
  show "add_isin_tracking U (snd (add_isin_tracking U d c u)) c u
           = (False, snd (add_isin_tracking U d c u))"
    by (rule add_isin_tracking_again)
next
  fix k :: nat
  assume "0 < k"
  then obtain j where "k = Suc j" by (cases k) auto
  then have "add_repeatedly U k d c u = snd (add_isin_tracking U d c u)"
    by (simp only: add_repeatedly_Suc)
  then show "\<exists>codes. get_user_isins (add_repeatedly U k d c u) u = Inr codes
                    \<and> count_list codes (py_upper U c) = 1"
    using listed_once [OF assms, of U c u] by simp
qed

theorem add_isin_tracking_twice_witness:
  "subscriptions_unique setup_database
   \<and> add_isin_tracking sample_unicode setup_database (str ''ru000a106se5'') 7
       = (True, \<lparr>tracked_news = [], user_isins = Some [(7, str ''RU000A106SE5'')]\<rparr>)
   \<and> add_isin_tracking sample_unicode
        (snd (add_isin_tracking sample_unicode setup_database (str ''ru000a106se5'') 7))
        (str ''ru000a106se5'') 7
       = (False, \<lparr>tracked_news = [], user_isins = Some [(7, str ''RU000A106SE5'')]\<rparr>)
   \<and> (\<exists>codes. get_user_isins
                 (add_repeatedly sample_unicode 3 setup_database (str ''ru000a106se5'') 7) 7
               = Inr codes
              \<and> count_list codes (str ''RU000A106SE5'') = 1)"
proof -
  have h: "subscriptions_unique setup_database"
    by (simp add: subscriptions_unique_def setup_database_def)
  have a: "add_isin_tracking sample_unicode setup_database (str ''ru000a106se5'') 7
       = (True, \<lparr>tracked_news = [], user_isins = Some [(7, str ''RU000A106SE5'')]\<rparr>)"
    by (simp add: add_isin_tracking_cases setup_database_def upper_sample_small)
  show ?thesis
    using h a add_isin_tracking_twice [OF h, of sample_unicode "str ''ru000a106se5''" 7]
    by (simp add: upper_sample_small)
qed

text \<open>
  The claim as stated fails for a subscriber who already tracks \<open>RU000A106SE5\<close> and adds
  \<open>ru000a106se5\<close>: the first call with that pair returns false, and the listed codes
  hold the code in capitals, not the code that was given.
\<close>

lemma small_is_not_capital: "str ''RU000A106SE5'' \<noteq> str ''ru000a106se5''"
  by (simp add: str_def)

theorem add_isin_tracking_twice_counterexample:
  "\<not> fst (add_isin_tracking sample_unicode
            \<lparr>tracked_news = [], user_isins = Some [(7, str ''RU000A106SE5'')]\<rparr>
            (str ''ru000a106se5'') 7)
   \<and> get_user_isins
        (snd (add_isin_tracking sample_unicode
                \<lparr>tracked_news = [], user_isins = Some [(7, str ''RU000A106SE5'')]\<rparr>
                (str ''ru000a106se5'') 7)) 7 = Inr [str ''RU000A106SE5'']
   \<and> count_list [str ''RU000A106SE5''] (str ''ru000a106se5'') = 0"
  using small_is_not_capital
  by (simp add: add_isin_tracking_cases get_user_isins_def upper_sample_small)

text \<open>
  Claim C10. \<open>add_isin_tracking\<close> tests no pattern: whatever the string, the pair of the
  subscriber and the string in capitals is in the table afterwards, and the value
  returned tells only whether it was there before. So \<open>RU123\<close>, which the \<open>/add\<close>
  command rejects, is stored when it reaches \<open>add_isin_tracking\<close> directly.
\<close>

theorem add_isin_tracking_unvalidated:
  "(\<exists>rows. user_isins (snd (add_isin_tracking U d c u)) = Some rows
           \<and> (u, py_upper U c) \<in> set rows)
   \<and> fst (add_isin_tracking U d c u)
       = ((u, py_upper U c) \<notin> set (case user_isins d of None \<Rightarrow> [] | Some rows \<Rightarrow> rows))"
  by (simp add: add_isin_tracking_rows add_isin_tracking_result)

theorem add_isin_tracking_unvalidated_witness:
  "\<not> re_match_isin (str ''RU123'')
   \<and> add_isin_tracking sample_unicode setup_database (str ''RU123'') 7
       = (True, \<lparr>tracked_news = [], user_isins = Some [(7, str ''RU123'')]\<rparr>)
   \<and> add_isin sample_unicode setup_database 7 [str ''RU123''] = (setup_database, InvalidFormat)"
proof -
  have m: "\<not> re_match_isin (str ''RU123'')"
    by (simp add: re_match_isin_def isin_at_def str_def)
  have "fst (add_isin_tracking sample_unicode setup_database (str ''RU123'') 7)"
    using add_isin_tracking_unvalidated [of sample_unicode setup_database "str ''RU123''" 7]
    by (simp add: setup_database_def)
  then show ?thesis using m
    by (simp add: add_isin_tracking_cases add_isin_def setup_database_def upper_sample_short
        strip_sample_short)
qed

text \<open>
  Claim C5, as amended. The \<open>/add\<close> command puts its argument in capitals, with the
  upper case of Python, and strips it, then tests the pattern on the result. It answers
  with the format error, and returns the database unchanged, exactly when that
  normalised code is not \<open>RU\<close> followed by exactly ten digits or capital letters.
  Otherwise the normalised code, which is its own upper case, is in the subscriber's
  rows afterwards; the ledger is untouched and the reply tells whether the pair was
  new. The command rejects \<open>RU123\<close> and accepts \<open>RU000A106SE5\<close>, in either case of the
  letters.
\<close>

theorem add_isin_validates:
  "(\<not> isin_pattern (py_strip (py_upper U a)) \<longrightarrow>
      add_isin U d u (a # rest) = (d, InvalidFormat))
   \<and> (isin_pattern (py_strip (py_upper U a)) \<longrightarrow>
        (\<exists>rows. user_isins (fst (add_isin U d u (a # rest))) = Some rows
                \<and> (u, py_strip (py_upper U a)) \<in> set rows)
        \<and> tracked_news (fst (add_isin U d u (a # rest))) = tracked_news d
        \<and> py_upper U (py_strip (py_upper U a)) = py_strip (py_upper U a)
        \<and> snd (add_isin U d u (a # rest))
            = (if (u, py_strip (py_upper U a))
                    \<in> set (case user_isins d of None \<Rightarrow> [] | Some rows \<Rightarrow> rows)
               then AlreadyTracked (py_strip (py_upper U a))
               else Added (py_strip (py_upper U a))))"
proof (intro conjI impI)
  assume "\<not> isin_pattern (py_strip (py_upper U a))"
  then show "add_isin U d u (a # rest) = (d, InvalidFormat)"
    by (simp add: add_isin_def re_match_isin_strip)
next
  let ?c = "py_strip (py_upper U a)"
  assume p: "isin_pattern ?c"
  then have up: "py_upper U ?c = ?c" by (rule py_upper_isin_pattern)
  have m: "re_match_isin ?c" using p by (simp add: re_match_isin_strip)
  have e: "add_isin U d u (a # rest)
           = (snd (add_isin_tracking U d ?c u),
              if fst (add_isin_tracking U d ?c u) then Added ?c else AlreadyTracked ?c)"
    using m by (cases "add_isin_tracking U d ?c u") (auto simp: add_isin_def Let_def)
  show "py_upper U ?c = ?c" by (rule up)
  show "\<exists>rows. user_isins (fst (add_isin U d u (a # rest))) = Some rows \<and> (u, ?c) \<in> set rows"
    unfolding e using up by (simp add: add_isin_tracking_rows)
  show "tracked_news (fst (add_isin U d u (a # rest))) = tracked_news d"
    unfolding e by (simp add: add_isin_tracking_ledger)
  show "snd (add_isin U d u (a # rest))
            = (if (u, ?c) \<in> set (case user_isins d of None \<Rightarrow> [] | Some rows \<Rightarrow> rows)
               then AlreadyTracked ?c else Added ?c)"
    unfolding e using up by (simp add: add_isin_tracking_result)
qed

theorem add_isin_validates_witness:
  "\<not> isin_pattern (py_strip (py_upper sample_unicode (str ''RU123'')))
   \<and> add_isin sample_unicode setup_database 7 [str ''RU123''] = (setup_database, InvalidFormat)
   \<and> isin_pattern (py_strip (py_upper sample_unicode (str ''ru000a106se5'')))
   \<and> fst (add_isin sample_unicode setup_database 7 [str ''ru000a106se5''])
       = \<lparr>tracked_news = [], user_isins = Some [(7, str ''RU000A106SE5'')]\<rparr>
   \<and> snd (add_isin sample_unicode setup_database 7 [str ''ru000a106se5''])
       = Added (str ''RU000A106SE5'')
   \<and> snd (add_isin sample_unicode setup_database 7 [str ''RU000A106SE5''])
       = Added (str ''RU000A106SE5'')"
proof -
  note w1 = add_isin_validates [of sample_unicode "str ''RU123''" setup_database 7 "[]"]
  note w2 = add_isin_validates [of sample_unicode "str ''ru000a106se5''" setup_database 7 "[]"]
  note w3 = add_isin_validates [of sample_unicode "str ''RU000A106SE5''" setup_database 7 "[]"]
  have a: "add_isin sample_unicode setup_database 7 [str ''RU123'']
           = (setup_database, InvalidFormat)"
    using w1 short_is_no_isin by (simp add: upper_sample_short strip_sample_short)
  have r: "re_match_isin (str ''RU000A106SE5'')"
    using re_match_isin_strip [of "str ''RU000A106SE5''"] sample_is_isin
    by (simp add: strip_sample)
  have b: "fst (add_isin sample_unicode setup_database 7 [str ''ru000a106se5''])
       = \<lparr>tracked_news = [], user_isins = Some [(7, str ''RU000A106SE5'')]\<rparr>"
    using r by (simp add: add_isin_def Let_def add_isin_tracking_cases setup_database_def
        upper_sample_small upper_sample_capital strip_sample)
  have c: "snd (add_isin sample_unicode setup_database 7 [str ''ru000a106se5''])
           = Added (str ''RU000A106SE5'')"
    using w2 sample_is_isin by (simp add: upper_sample_small strip_sample setup_database_def)
  have e: "snd (add_isin sample_unicode setup_database 7 [str ''RU000A106SE5''])
           = Added (str ''RU000A106SE5'')"
    using w3 sample_is_isin by (simp add: upper_sample_capital strip_sample setup_database_def)
  show ?thesis using a b c e short_is_no_isin sample_is_isin
    by (simp add: upper_sample_short strip_sample_short upper_sample_small strip_sample)
qed

text \<open>
  The claim as stated fails for a code that is not \<open>RU\<close> followed by exactly ten
  alphanumeric characters but whose upper case is: of the eleven characters of
  \<open>RU00000000\<close> with a sharp s, U+00DF, at the end, Python makes the twelve characters
  \<open>RU00000000SS\<close>, and the command stores them.
\<close>

theorem add_isin_validates_counterexample:
  "length (str ''RU00000000'' @ [0xDF]) = 11
   \<and> \<not> isin_pattern (str ''RU00000000'' @ [0xDF])
   \<and> add_isin sample_unicode setup_database 7 [str ''RU00000000'' @ [0xDF]]
       = (\<lparr>tracked_news = [], user_isins = Some [(7, str ''RU00000000SS'')]\<rparr>,
          Added (str ''RU00000000SS''))"
proof -
  have l: "length (str ''RU00000000'' @ [0xDF]) = 11" by (simp add: str_def)
  then have n: "\<not> isin_pattern (str ''RU00000000'' @ [0xDF])"
    by (simp add: isin_pattern_def)
  have r: "re_match_isin (str ''RU00000000SS'')"
    using re_match_isin_strip [of "str ''RU00000000SS''"] sharp_s_is_isin
    by (simp add: strip_sample_sharp_s)
  have u: "py_upper sample_unicode (str ''RU00000000SS'') = str ''RU00000000SS''"
    using sharp_s_is_isin by (rule py_upper_isin_pattern)
  have "add_isin sample_unicode setup_database 7 [str ''RU00000000'' @ [0xDF]]
       = (\<lparr>tracked_news = [], user_isins = Some [(7, str ''RU00000000SS'')]\<rparr>,
          Added (str ''RU00000000SS''))"
    using r by (simp add: add_isin_def Let_def add_isin_tracking_cases setup_database_def
        upper_sample_sharp_s strip_sample_sharp_s u)
  then show ?thesis using l n by simp
qed

section \<open>Notification\<close>

lemma relevant_news_filter:
  "relevant_news codes new_news
     = filter (\<lambda>n. \<exists>c. isin n = Some c \<and> c \<in> set codes) new_news"
  unfolding relevant_news_def by (rule filter_cong) auto

lemma sent_to_concat:
  "distinct us \<Longrightarrow>
   sent_to u (concat (map (\<lambda>v. map (Pair v) (f v)) us)) = (if u \<in> set us then f u else [])"
proof (induction us)
  case Nil
  show ?case by (simp add: sent_to_def)
next
  case (Cons v us)
  have own: "sent_to u (map (Pair v) (f v)) = (if u = v then f v else [])"
    by (simp add: sent_to_def filter_empty_conv comp_def)
  have "sent_to u (concat (map (\<lambda>v. map (Pair v) (f v)) (v # us)))
        = sent_to u (map (Pair v) (f v)) @ sent_to u (concat (map (\<lambda>v. map (Pair v) (f v)) us))"
    by (simp add: sent_to_def)
  then show ?case using Cons own by auto
qed

lemma no_rows_no_codes:
  "u \<notin> set (map fst rows) \<Longrightarrow> map snd (filter (\<lambda>row. fst row = u) rows) = []"
  by (auto simp: filter_empty_conv)

lemma sent_to_notify_users:
  "sent_to u (notify_users d new_news) = relevant_news (tracked_codes d u) new_news"
proof (cases "new_news = []")
  case True
  then show ?thesis by (simp add: notify_users_def sent_to_def relevant_news_def)
next
  case False
  show ?thesis
  proof (cases "user_isins d")
    case None
    then show ?thesis using False
      by (simp add: notify_users_def sent_to_def relevant_news_def tracked_codes_def)
  next
    case (Some rows)
    let ?f = "\<lambda>v. relevant_news (sort (map snd (filter (\<lambda>row. fst row = v) rows))) new_news"
    have "distinct (sort (remdups (map fst rows)))" by simp
    then have "sent_to u (notify_users d new_news)
          = (if u \<in> set (sort (remdups (map fst rows))) then ?f u else [])"
      using Some False sent_to_concat [of "sort (remdups (map fst rows))" u ?f]
      by (simp add: notify_users_def)
    moreover have "u \<notin> set (map fst rows) \<Longrightarrow> ?f u = []"
      using no_rows_no_codes [of u rows] by (simp add: relevant_news_def)
    ultimately show ?thesis using Some by (auto simp: tracked_codes_def)
  qed
qed

text \<open>
  Claim C4. Of a list of new events, the periodic check sends a subscriber exactly the
  events whose \<open>isin\<close> is a code, not \<open>None\<close>, that the subscriber tracks, in the order of
  the list; the list comprehension both commands use selects the same; an event without
  \<open>isin\<close> is therefore sent to nobody. The \<open>/check\<close> command sends its caller the events
  of its own cycle selected in that way, after \<open>get_user_isins\<close>, which raises only
  where the table is missing.
\<close>

theorem routing_by_isin:
  "sent_to u (notify_users d new_news)
     = filter (\<lambda>n. \<exists>c. isin n = Some c \<and> c \<in> set (tracked_codes d u)) new_news
   \<and> relevant_news codes new_news
     = filter (\<lambda>n. \<exists>c. isin n = Some c \<and> c \<in> set codes) new_news
   \<and> get_user_isins d u = (if user_isins d = None then Inl OperationalError
                            else Inr (tracked_codes d u))
   \<and> (case manual_check U w d u of
         Inl e \<Rightarrow> user_isins d = None
       | Inr (d', sent) \<Rightarrow>
           sent = filter (\<lambda>n. \<exists>c. isin n = Some c \<and> c \<in> set (tracked_codes d u))
                    (if tracked_codes d u = [] then [] else fst (check_new_news U w d)))"
proof (intro conjI)
  show "sent_to u (notify_users d new_news)
     = filter (\<lambda>n. \<exists>c. isin n = Some c \<and> c \<in> set (tracked_codes d u)) new_news"
    by (simp only: sent_to_notify_users relevant_news_filter)
  show "relevant_news codes new_news
     = filter (\<lambda>n. \<exists>c. isin n = Some c \<and> c \<in> set codes) new_news"
    by (rule relevant_news_filter)
  show g: "get_user_isins d u = (if user_isins d = None then Inl OperationalError
                            else Inr (tracked_codes d u))"
    by (cases "user_isins d") (simp_all add: get_user_isins_def tracked_codes_def)
  show "case manual_check U w d u of
         Inl e \<Rightarrow> user_isins d = None
       | Inr (d', sent) \<Rightarrow>
           sent = filter (\<lambda>n. \<exists>c. isin n = Some c \<and> c \<in> set (tracked_codes d u))
                    (if tracked_codes d u = [] then [] else fst (check_new_news U w d))"
  proof (cases "user_isins d")
    case None
    then show ?thesis by (simp add: manual_check_def g)
  next
    case (Some rows)
    then have e: "get_user_isins d u = Inr (tracked_codes d u)" by (simp add: g)
    show ?thesis
    proof (cases "tracked_codes d u = []")
      case True
      then show ?thesis by (simp add: manual_check_def e)
    next
      case False
      then show ?thesis
        by (cases "check_new_news U w d") (simp add: manual_check_def e relevant_news_filter)
    qed
  qed
qed

theorem routing_by_isin_witness:
  "sent_to 7 (notify_users subscribed_db [news_a, news_b, news_c]) = [news_a]
   \<and> sent_to 8 (notify_users subscribed_db [news_a, news_b, news_c]) = [news_c]
   \<and> sent_to 9 (notify_users subscribed_db [news_a, news_b, news_c]) = []
   \<and> isin news_b = None
   \<and> relevant_news [str ''RU000A106SE5''] [news_a, news_b, news_c] = [news_a]"
proof -
  have c7: "tracked_codes subscribed_db 7 = [str ''RU000A0JX0J2'', str ''RU000A106SE5'']"
    by (simp add: tracked_codes_def subscribed_db_def str_def)
  have c8: "tracked_codes subscribed_db 8 = [str ''RU000A999XX1'']"
    by (simp add: tracked_codes_def subscribed_db_def)
  have c9: "tracked_codes subscribed_db 9 = []"
    by (simp add: tracked_codes_def subscribed_db_def)
  have i: "isin news_a = Some (str ''RU000A106SE5'') \<and> isin news_b = None
           \<and> isin news_c = Some (str ''RU000A999XX1'')"
    by (simp add: news_a_def news_b_def news_c_def)
  show ?thesis
    using routing_by_isin [of 7 subscribed_db "[news_a, news_b, news_c]" "[str ''RU000A106SE5'']"]
      routing_by_isin [of 8 subscribed_db "[news_a, news_b, news_c]"]
      routing_by_isin [of 9 subscribed_db "[news_a, news_b, news_c]"]
    by (simp add: c7 c8 c9 i str_def)
qed

section \<open>The extractor\<close>

lemma digit_is_digit: "48 \<le> digit k \<and> digit k \<le> 57"
proof -
  have "k mod 10 < 10" by simp
  then show ?thesis unfolding digit_def by linarith
qed

lemma strftime_shape: "is_dd_mm_yyyy (strftime_dmy t)"
  by (simp add: is_dd_mm_yyyy_def strftime_dmy_def digit_is_digit str_def)

lemma unknown_has_no_isin: "re_search_isin str_unknown = None"
  by (simp add: str_unknown_def isin_at_def str_def)

lemma fields_title:
  "soup_of w html = Some soup \<Longrightarrow>
   d_title (fields_of U w html)
     = (case find (\<lambda>e. el_name e = str ''h1'') soup of
          Some e \<Rightarrow> py_strip (get_text e) | None \<Rightarrow> str_unknown)"
  by (simp add: fields_of_def parse_news_page_def Let_def)

lemma fields_isin:
  "soup_of w html = Some soup \<Longrightarrow>
   d_isin (fields_of U w html) = re_search_isin (d_title (fields_of U w html))"
  by (simp add: fields_of_def parse_news_page_def Let_def)

lemma fields_event_type:
  "soup_of w html = Some soup \<Longrightarrow>
   d_event_type (fields_of U w html)
     = (if contains kw_coupon (py_lower U (d_title (fields_of U w html))) then str_coupon
        else if contains kw_redemption (py_lower U (d_title (fields_of U w html)))
          then str_redemption
        else if contains kw_offer (py_lower U (d_title (fields_of U w html))) then str_offer
        else str_unknown)"
  by (simp add: fields_of_def parse_news_page_def Let_def)

lemma fields_payment:
  "soup_of w html = Some soup \<Longrightarrow>
   d_payment_amount (fields_of U w html)
     = (case re_search_payment U html of Some g \<Rightarrow> Some (g @ str_rub) | None \<Rightarrow> None)"
  by (simp add: fields_of_def parse_news_page_def Let_def)

lemma fields_date:
  "soup_of w html = Some soup \<Longrightarrow>
   d_published_date (fields_of U w html)
     = (case (case find (\<lambda>e. el_name e = str ''time'') soup of
                Some e \<Rightarrow> Some e
              | None \<Rightarrow>
                  find (\<lambda>e. el_name e = str ''div'' \<and>
                             (case el_class e of
                                Some c \<Rightarrow> contains (str ''date'') c | None \<Rightarrow> False)) soup) of
          Some e \<Rightarrow> py_strip (get_text e) | None \<Rightarrow> strftime_dmy (today w))"
  by (simp add: fields_of_def parse_news_page_def Let_def)

text \<open>
  Claim C8, as amended. On every page that the HTML parser accepts, \<open>parse_news_page\<close>
  returns a record, and every missing field takes its default. Without \<open>h1\<close> the title
  is the literal placeholder of the source (the Russian word for unknown), and \<open>isin\<close>
  is \<open>None\<close>; a title in which the code pattern matches nowhere gives \<open>isin\<close> \<open>None\<close>; a
  title that, in small letters, contains none of the three keywords gives the
  placeholder as event type; a page in which the amount pattern matches nowhere gives
  the amount \<open>None\<close>; and a page with neither a \<open>time\<close> tag nor a \<open>div\<close> whose class
  contains \<open>date\<close> gives as published date the date of the clock as \<open>strftime\<close> prints
  it, a string of the shape \<open>DD.MM.YYYY\<close>.
\<close>

theorem parse_news_page_defaults:
  assumes "soup_of w html = Some soup"
  shows "\<exists>p. parse_news_page U w html = Inr p
       \<and> (find (\<lambda>e. el_name e = str ''h1'') soup = None \<longrightarrow>
            d_title p = str_unknown \<and> d_isin p = None)
       \<and> (re_search_isin (d_title p) = None \<longrightarrow> d_isin p = None)
       \<and> (\<not> contains kw_coupon (py_lower U (d_title p))
          \<and> \<not> contains kw_redemption (py_lower U (d_title p))
          \<and> \<not> contains kw_offer (py_lower U (d_title p)) \<longrightarrow>
            d_event_type p = str_unknown)
       \<and> (re_search_payment U html = None \<longrightarrow> d_payment_amount p = None)
       \<and> (find (\<lambda>e. el_name e = str ''time'') soup = None
          \<and> find (\<lambda>e. el_name e = str ''div'' \<and>
                       (case el_class e of
                          Some c \<Rightarrow> contains (str ''date'') c | None \<Rightarrow> False)) soup = None \<longrightarrow>
            d_published_date p = strftime_dmy (today w))
       \<and> (valid_date (today w) \<longrightarrow> is_dd_mm_yyyy (strftime_dmy (today w)))"
proof (intro exI conjI impI)
  show "parse_news_page U w html = Inr (fields_of U w html)"
    using assms by (rule parse_news_page_accepted)
next
  assume h: "find (\<lambda>e. el_name e = str ''h1'') soup = None"
  then show t: "d_title (fields_of U w html) = str_unknown"
    by (simp add: fields_title [OF assms])
  show "d_isin (fields_of U w html) = None"
    by (simp add: fields_isin [OF assms] t unknown_has_no_isin)
next
  assume "re_search_isin (d_title (fields_of U w html)) = None"
  then show "d_isin (fields_of U w html) = None" by (simp add: fields_isin [OF assms])
next
  assume "\<not> contains kw_coupon (py_lower U (d_title (fields_of U w html)))
          \<and> \<not> contains kw_redemption (py_lower U (d_title (fields_of U w html)))
          \<and> \<not> contains kw_offer (py_lower U (d_title (fields_of U w html)))"
  then show "d_event_type (fields_of U w html) = str_unknown"
    by (simp add: fields_event_type [OF assms])
next
  assume "re_search_payment U html = None"
  then show "d_payment_amount (fields_of U w html) = None"
    by (simp add: fields_payment [OF assms])
next
  assume "find (\<lambda>e. el_name e = str ''time'') soup = None
          \<and> find (\<lambda>e. el_name e = str ''div'' \<and>
                       (case el_class e of
                          Some c \<Rightarrow> contains (str ''date'') c | None \<Rightarrow> False)) soup = None"
  then show "d_published_date (fields_of U w html) = strftime_dmy (today w)"
    by (simp add: fields_date [OF assms])
next
  show "is_dd_mm_yyyy (strftime_dmy (today w))" by (rule strftime_shape)
qed

lemma bare_page_soup:
  "soup_of sample_world bare_page
     = Some [\<lparr>el_name = str ''p'', el_href = None, el_class = Some (str ''lead''),
               el_strings = [str ''12,50'' @ [0xA0, 0x440, 0x443, 0x431]]\<rparr>]"
proof -
  have "bare_page \<noteq> rejected_markup \<and> bare_page \<noteq> sample_index
        \<and> bare_page \<noteq> sample_detail_101 \<and> bare_page \<noteq> sample_detail_102"
    by (simp add: bare_page_def rejected_markup_def sample_index_def sample_detail_101_def
        sample_detail_102_def str_def)
  then show ?thesis by (simp add: sample_world_def sample_soup_def)
qed

lemma bare_page_payment: "re_search_payment sample_unicode bare_page = Some (str ''12,50'')"
  by (simp add: bare_page_def payment_at_def py_isdecimal_def py_isspace_def rub_at_def
      str_def sample_unicode_def)

lemma lower_unknown:
  "py_lower sample_unicode str_unknown
     = [0x43D, 0x435, 0x438, 0x437, 0x432, 0x435, 0x441, 0x442, 0x43D, 0x43E]"
  by (simp add: py_lower_def sample_unicode_def str_unknown_def)

lemma unknown_has_no_keyword:
  "\<not> contains kw_coupon (py_lower sample_unicode str_unknown)
   \<and> \<not> contains kw_redemption (py_lower sample_unicode str_unknown)
   \<and> \<not> contains kw_offer (py_lower sample_unicode str_unknown)"
  unfolding lower_unknown by (simp add: kw_coupon_def kw_redemption_def kw_offer_def)

theorem parse_news_page_defaults_witness:
  "\<exists>p. parse_news_page sample_unicode sample_world bare_page = Inr p
     \<and> d_title p = str_unknown
     \<and> d_isin p = None
     \<and> d_event_type p = str_unknown
     \<and> d_payment_amount p = Some (str ''12,50'' @ str_rub)
     \<and> d_published_date p = str ''03.11.2026''
     \<and> valid_date (today sample_world)
     \<and> is_dd_mm_yyyy (str ''03.11.2026'')"
proof -
  let ?soup = "[\<lparr>el_name = str ''p'', el_href = None, el_class = Some (str ''lead''),
                  el_strings = [str ''12,50'' @ [0xA0, 0x440, 0x443, 0x431]]\<rparr>]"
  let ?is_date = "\<lambda>e. el_name e = str ''div'' \<and>
                      (case el_class e of Some c \<Rightarrow> contains (str ''date'') c | None \<Rightarrow> False)"
  have t: "today sample_world = \<lparr>day = 3, month = 11, year = 2026\<rparr>"
    by (simp add: sample_world_def)
  have f: "strftime_dmy \<lparr>day = 3, month = 11, year = 2026\<rparr> = str ''03.11.2026''"
    by (simp add: strftime_dmy_def digit_def str_def)
  have v: "valid_date (today sample_world)" by (simp add: t valid_date_def)
  have n1: "find (\<lambda>e. el_name e = str ''h1'') ?soup = None" by (simp add: str_def)
  have n2: "find (\<lambda>e. el_name e = str ''time'') ?soup = None \<and> find ?is_date ?soup = None"
    by (simp add: str_def)
  from parse_news_page_defaults [OF bare_page_soup, of sample_unicode] show ?thesis
  proof (elim exE conjE)
    fix p
    assume p: "parse_news_page sample_unicode sample_world bare_page = Inr p"
      and a: "find (\<lambda>e. el_name e = str ''h1'') ?soup = None \<longrightarrow>
                d_title p = str_unknown \<and> d_isin p = None"
      and b: "\<not> contains kw_coupon (py_lower sample_unicode (d_title p))
              \<and> \<not> contains kw_redemption (py_lower sample_unicode (d_title p))
              \<and> \<not> contains kw_offer (py_lower sample_unicode (d_title p)) \<longrightarrow>
                d_event_type p = str_unknown"
      and c: "find (\<lambda>e. el_name e = str ''time'') ?soup = None \<and> find ?is_date ?soup = None \<longrightarrow>
                d_published_date p = strftime_dmy (today sample_world)"
      and s: "valid_date (today sample_world) \<longrightarrow> is_dd_mm_yyyy (strftime_dmy (today sample_world))"
    have ti: "d_title p = str_unknown \<and> d_isin p = None" using a n1 by (rule mp)
    then have e: "d_event_type p = str_unknown" using b unknown_has_no_keyword by simp
    have d: "d_published_date p = str ''03.11.2026''" using c n2 by (simp add: t f)
    have sh: "is_dd_mm_yyyy (str ''03.11.2026'')" using s v by (simp add: t f)
    have "parse_news_page sample_unicode sample_world bare_page
          = Inr (fields_of sample_unicode sample_world bare_page)"
      using bare_page_soup by (rule parse_news_page_accepted)
    then have "p = fields_of sample_unicode sample_world bare_page" using p by simp
    then have m: "d_payment_amount p = Some (str ''12,50'' @ str_rub)"
      by (simp add: fields_payment [OF bare_page_soup] bare_page_payment)
    show ?thesis using p ti e m d v sh by blast
  qed
qed

text \<open>
  The claim as stated fails on markup that the parser rejects: \<open>BeautifulSoup\<close> raises
  \<open>ParserRejectedMarkup\<close> on it, and \<open>parse_news_page\<close>, which has no handler, lets the
  exception pass to its caller.
\<close>

theorem parse_news_page_defaults_counterexample:
  "parse_news_page sample_unicode sample_world rejected_markup = Inl ParserRejectedMarkup"
  by (simp add: parse_news_page_def sample_world_def sample_soup_def)

section \<open>Candidates of a cycle\<close>

lemma news_elements_href:
  "e \<in> set (news_elements soup) \<Longrightarrow>
   el_name e = str ''a'' \<and> el_href e = Some (href_of e)
   \<and> contains (str ''/ru/news/view/'') (href_of e)"
  by (cases "el_href e") (auto simp: news_elements_def href_of_def)

lemma plain_item_path_segment:
  assumes "plain_item_path h"
  shows "last_path_segment h = last_segment h"
proof -
  let ?r = "rev h"
  have ne: "takeWhile (\<lambda>c. c \<noteq> of_char (CHR ''/'')) ?r \<noteq> []"
    using assms by (simp add: plain_item_path_def last_segment_def)
  then obtain c cs where r: "?r = c # cs" by (cases ?r) auto
  then have "c \<noteq> of_char (CHR ''/'')" using ne by (auto split: if_splits)
  then have "dropWhile (\<lambda>c. c = of_char (CHR ''/'')) ?r = ?r" using r by simp
  then show ?thesis using assms by (simp add: plain_item_path_def last_path_segment_def)
qed

text \<open>
  Claim C9, as amended. From an index page fetched with status 200 the fetcher makes one
  candidate for each of the first ten \<open>a\<close> tags whose \<open>href\<close> contains
  \<open>/ru/news/view/\<close>, in the order of the page, and no other. For a candidate whose
  \<open>href\<close> begins with a single slash the \<open>news_url\<close> is the \<open>href\<close> resolved against
  the base URL of the site, that is the base URL followed by the \<open>href\<close>. For a candidate
  whose \<open>href\<close> has no query, no fragment and no slash at its end the \<open>news_id\<close> is the
  last segment of the path of the \<open>href\<close>.
\<close>

theorem get_recent_news_candidates:
  assumes "http_get w (base_url @ str ''/ru/news'') = HttpResponse 200 body"
    and "soup_of w body = Some soup"
  shows "length (get_recent_news U w) = length (take 10 (news_elements soup))
       \<and> length (get_recent_news U w) \<le> 10
       \<and> (\<forall>i < length (get_recent_news U w).
            el_name (news_elements soup ! i) = str ''a''
            \<and> contains (str ''/ru/news/view/'') (href_of (news_elements soup ! i))
            \<and> (site_path (href_of (news_elements soup ! i)) \<longrightarrow>
                 news_url (get_recent_news U w ! i)
                   = base_url @ href_of (news_elements soup ! i))
            \<and> (plain_item_path (href_of (news_elements soup ! i)) \<longrightarrow>
                 news_id (get_recent_news U w ! i)
                   = last_path_segment (href_of (news_elements soup ! i))))"
proof (intro conjI allI impI)
  note g = get_recent_news_ok [OF assms, of U]
  show l: "length (get_recent_news U w) = length (take 10 (news_elements soup))"
    by (simp add: g)
  show "length (get_recent_news U w) \<le> 10" by (simp add: g)
  fix i
  assume i: "i < length (get_recent_news U w)"
  then have i10: "i < 10" and il: "i < length (news_elements soup)" using l by simp_all
  let ?e = "news_elements soup ! i"
  have e: "?e \<in> set (news_elements soup)" using il by (rule nth_mem)
  have c: "get_recent_news U w ! i = candidate_of U w body ?e (href_of ?e)"
    using i10 il by (simp add: g)
  show "el_name ?e = str ''a''" using news_elements_href [OF e] by simp
  show "contains (str ''/ru/news/view/'') (href_of ?e)" using news_elements_href [OF e] by simp
  {
    assume "site_path (href_of ?e)"
    then show "news_url (get_recent_news U w ! i) = base_url @ href_of ?e"
      by (simp add: c candidate_of_def site_path_def)
  }
  {
    assume "plain_item_path (href_of ?e)"
    then show "news_id (get_recent_news U w ! i) = last_path_segment (href_of ?e)"
      by (simp add: c candidate_of_def plain_item_path_segment)
  }
qed

lemma sample_href_101:
  "site_path (str ''/ru/news/view/101'') \<and> plain_item_path (str ''/ru/news/view/101'')
   \<and> last_path_segment (str ''/ru/news/view/101'') = str ''101''"
  by (simp add: site_path_def plain_item_path_def last_path_segment_def path_of_def
      last_segment_def str_def)

theorem get_recent_news_candidates_witness:
  "http_get sample_world (base_url @ str ''/ru/news'') = HttpResponse 200 sample_index
   \<and> length (get_recent_news sample_unicode sample_world) = 2
   \<and> site_path (str ''/ru/news/view/101'')
   \<and> plain_item_path (str ''/ru/news/view/101'')
   \<and> news_url (get_recent_news sample_unicode sample_world ! 0)
       = base_url @ str ''/ru/news/view/101''
   \<and> news_id (get_recent_news sample_unicode sample_world ! 0) = str ''101''"
proof -
  note w = get_recent_news_candidates [OF sample_request sample_index_soup, of sample_unicode]
  have l: "length (get_recent_news sample_unicode sample_world) = 2"
    using w by (simp add: sample_anchors)
  have h: "href_of (news_elements
             [\<lparr>el_name = str ''h1'', el_href = None, el_class = None,
                el_strings = [str ''News'']\<rparr>,
              \<lparr>el_name = str ''a'', el_href = Some (str ''/ru/news/view/101''), el_class = None,
                el_strings = [str ''Coupon'']\<rparr>,
              \<lparr>el_name = str ''a'', el_href = Some (str ''/ru/news/view/102''), el_class = None,
                el_strings = [str '' Redemption '']\<rparr>] ! 0) = str ''/ru/news/view/101''"
    by (simp add: sample_anchors href_of_def)
  have "0 < length (get_recent_news sample_unicode sample_world)" using l by simp
  then have "(site_path (str ''/ru/news/view/101'') \<longrightarrow>
               news_url (get_recent_news sample_unicode sample_world ! 0)
                 = base_url @ str ''/ru/news/view/101'')
           \<and> (plain_item_path (str ''/ru/news/view/101'') \<longrightarrow>
               news_id (get_recent_news sample_unicode sample_world ! 0)
                 = last_path_segment (str ''/ru/news/view/101''))"
    using w h by simp
  then show ?thesis using sample_request l sample_href_101 by simp
qed

text \<open>
  The claim as stated fails in both parts. For the link
  \<open>/ru/news/view/101?from=/ru/news\<close> the last segment of the path is \<open>101\<close>, but the
  \<open>news_id\<close> is \<open>news\<close>, the text after the last slash of the query; for the link
  \<open>/ru/news/view/102/\<close> the last segment is \<open>102\<close>, but the \<open>news_id\<close> is empty. For
  the relative link \<open>../ru/news/view/7\<close> the \<open>news_url\<close> is that same relative
  reference, not a URL under the base URL.
\<close>

lemma odd_links_request:
  "http_get odd_links_world (base_url @ str ''/ru/news'') = HttpResponse 200 sample_index"
  by (simp add: odd_links_world_def sample_world_def sample_site_def base_url_def str_def)

lemma odd_links_soup:
  "soup_of odd_links_world sample_index
     = Some [\<lparr>el_name = str ''a'', el_href = Some (str ''/ru/news/view/101?from=/ru/news''),
               el_class = None, el_strings = [str ''Coupon'']\<rparr>,
             \<lparr>el_name = str ''a'', el_href = Some (str ''/ru/news/view/102/''),
               el_class = None, el_strings = [str ''Redemption'']\<rparr>,
             \<lparr>el_name = str ''a'', el_href = Some (str ''../ru/news/view/7''),
               el_class = None, el_strings = [str ''Offer'']\<rparr>]"
  by (simp add: odd_links_world_def)

lemma odd_links_anchors:
  "news_elements
     [\<lparr>el_name = str ''a'', el_href = Some (str ''/ru/news/view/101?from=/ru/news''),
        el_class = None, el_strings = [str ''Coupon'']\<rparr>,
      \<lparr>el_name = str ''a'', el_href = Some (str ''/ru/news/view/102/''),
        el_class = None, el_strings = [str ''Redemption'']\<rparr>,
      \<lparr>el_name = str ''a'', el_href = Some (str ''../ru/news/view/7''),
        el_class = None, el_strings = [str ''Offer'']\<rparr>]
   = [\<lparr>el_name = str ''a'', el_href = Some (str ''/ru/news/view/101?from=/ru/news''),
        el_class = None, el_strings = [str ''Coupon'']\<rparr>,
      \<lparr>el_name = str ''a'', el_href = Some (str ''/ru/news/view/102/''),
        el_class = None, el_strings = [str ''Redemption'']\<rparr>,
      \<lparr>el_name = str ''a'', el_href = Some (str ''../ru/news/view/7''),
        el_class = None, el_strings = [str ''Offer'']\<rparr>]"
  by (simp add: news_elements_def str_def)

theorem get_recent_news_candidates_counterexample:
  "map news_id (get_recent_news sample_unicode odd_links_world) = [str ''news'', [], str ''7'']
   \<and> last_path_segment (str ''/ru/news/view/101?from=/ru/news'') = str ''101''
   \<and> last_path_segment (str ''/ru/news/view/102/'') = str ''102''
   \<and> str ''news'' \<noteq> str ''101'' \<and> [] \<noteq> str ''102''
   \<and> map news_url (get_recent_news sample_unicode odd_links_world)
       = [base_url @ str ''/ru/news/view/101?from=/ru/news'',
          base_url @ str ''/ru/news/view/102/'', str ''../ru/news/view/7'']
   \<and> \<not> prefix base_url (str ''../ru/news/view/7'')"
proof -
  have a: "map news_id (get_recent_news sample_unicode odd_links_world)
           = [str ''news'', [], str ''7'']"
    unfolding get_recent_news_ok [OF odd_links_request odd_links_soup] odd_links_anchors
    by (simp add: candidate_of_def href_of_def last_segment_def str_def)
  have b: "map news_url (get_recent_news sample_unicode odd_links_world)
       = [base_url @ str ''/ru/news/view/101?from=/ru/news'',
          base_url @ str ''/ru/news/view/102/'', str ''../ru/news/view/7'']"
    unfolding get_recent_news_ok [OF odd_links_request odd_links_soup] odd_links_anchors
    by (simp add: candidate_of_def href_of_def str_def)
  have c: "last_path_segment (str ''/ru/news/view/101?from=/ru/news'') = str ''101''
         \<and> last_path_segment (str ''/ru/news/view/102/'') = str ''102''"
    by (simp add: last_path_segment_def path_of_def last_segment_def str_def)
  have d: "str ''news'' \<noteq> str ''101'' \<and> [] \<noteq> str ''102''
         \<and> \<not> prefix base_url (str ''../ru/news/view/7'')"
    by (simp add: base_url_def str_def)
  show ?thesis using a b c d by simp
qed

section \<open>The fields of a candidate\<close>

text \<open>Every candidate of a cycle carries the fields read from the index page.\<close>

lemma candidates_share_fields:
  assumes "http_get w (base_url @ str ''/ru/news'') = HttpResponse 200 body"
    and "soup_of w body = Some soup"
    and "c \<in> set (get_recent_news U w)"
  shows "isin c = d_isin (fields_of U w body)
       \<and> event_type c = d_event_type (fields_of U w body)
       \<and> payment_amount c = d_payment_amount (fields_of U w body)
       \<and> published_date c = d_published_date (fields_of U w body)"
  using assms(3) unfolding get_recent_news_ok [OF assms(1) assms(2)]
  by (auto simp: candidate_of_def)

lemma sample_index_fields:
  "d_isin (fields_of U sample_world sample_index) = None
   \<and> d_published_date (fields_of U sample_world sample_index) = str ''03.11.2026''"
proof -
  have t: "d_title (fields_of U sample_world sample_index) = str ''News''"
    by (simp add: fields_title [OF sample_index_soup] get_text_def py_strip_def py_isspace_def
        str_def)
  have i: "re_search_isin (str ''News'') = None" by (simp add: isin_at_def str_def)
  have c: "today sample_world = \<lparr>day = 3, month = 11, year = 2026\<rparr>"
    by (simp add: sample_world_def)
  have d: "d_published_date (fields_of U sample_world sample_index) = str ''03.11.2026''"
    by (simp add: fields_date [OF sample_index_soup] c strftime_dmy_def digit_def str_def)
  show ?thesis using t i d by (simp add: fields_isin [OF sample_index_soup])
qed

lemma sample_detail_soups:
  "soup_of sample_world sample_detail_101
     = Some [\<lparr>el_name = str ''h1'', el_href = None, el_class = None,
               el_strings = [str ''Coupon RU000A106SE5'']\<rparr>,
             \<lparr>el_name = str ''time'', el_href = None, el_class = None,
               el_strings = [str ''01.02.2024'']\<rparr>]
   \<and> soup_of sample_world sample_detail_102
     = Some [\<lparr>el_name = str ''h1'', el_href = None, el_class = None,
               el_strings = [str ''Redemption RU000A999XX1'']\<rparr>,
             \<lparr>el_name = str ''time'', el_href = None, el_class = None,
               el_strings = [str ''02.02.2024'']\<rparr>]"
proof -
  have "sample_detail_101 \<noteq> rejected_markup \<and> sample_detail_101 \<noteq> sample_index
        \<and> sample_detail_102 \<noteq> rejected_markup \<and> sample_detail_102 \<noteq> sample_index
        \<and> sample_detail_102 \<noteq> sample_detail_101"
    by (simp add: sample_detail_101_def sample_detail_102_def rejected_markup_def
        sample_index_def str_def)
  then show ?thesis by (simp add: sample_world_def sample_soup_def)
qed

lemma sample_detail_fields:
  "d_isin (fields_of U sample_world sample_detail_101) = Some (str ''RU000A106SE5'')
   \<and> d_published_date (fields_of U sample_world sample_detail_101) = str ''01.02.2024''
   \<and> d_isin (fields_of U sample_world sample_detail_102) = Some (str ''RU000A999XX1'')
   \<and> d_published_date (fields_of U sample_world sample_detail_102) = str ''02.02.2024''"
proof -
  note s1 = sample_detail_soups [THEN conjunct1]
  note s2 = sample_detail_soups [THEN conjunct2]
  have t1: "d_title (fields_of U sample_world sample_detail_101) = str ''Coupon RU000A106SE5''"
    by (simp add: fields_title [OF s1] get_text_def py_strip_def py_isspace_def str_def)
  have t2: "d_title (fields_of U sample_world sample_detail_102)
            = str ''Redemption RU000A999XX1''"
    by (simp add: fields_title [OF s2] get_text_def py_strip_def py_isspace_def str_def)
  have i1: "re_search_isin (str ''Coupon RU000A106SE5'') = Some (str ''RU000A106SE5'')"
    by (simp add: isin_at_def isin_char_def str_def)
  have i2: "re_search_isin (str ''Redemption RU000A999XX1'') = Some (str ''RU000A999XX1'')"
    by (simp add: isin_at_def isin_char_def str_def)
  have d1: "d_published_date (fields_of U sample_world sample_detail_101) = str ''01.02.2024''"
    by (simp add: fields_date [OF s1] get_text_def py_strip_def py_isspace_def str_def)
  have d2: "d_published_date (fields_of U sample_world sample_detail_102) = str ''02.02.2024''"
    by (simp add: fields_date [OF s2] get_text_def py_strip_def py_isspace_def str_def)
  show ?thesis using t1 t2 i1 i2 d1 d2 by (simp add: fields_isin [OF s1] fields_isin [OF s2])
qed

text \<open>
  Claim C3. The claim asks that the fields of a candidate come from the candidate's own
  detail page. The source parses \<open>response.text\<close>, the index page, for every candidate
  and requests no other page. In the sample site the pages of the items 101 and 102
  carry the codes \<open>RU000A106SE5\<close> and \<open>RU000A999XX1\<close> and their own dates; both
  candidates come out without code and with the date of the clock, as the index page
  alone gives them.
\<close>

theorem candidates_carry_index_fields:
  "map news_url (get_recent_news sample_unicode sample_world)
     = [str ''https://nsddata.ru/ru/news/view/101'', str ''https://nsddata.ru/ru/news/view/102'']
   \<and> http_get sample_world (str ''https://nsddata.ru/ru/news/view/101'')
       = HttpResponse 200 sample_detail_101
   \<and> http_get sample_world (str ''https://nsddata.ru/ru/news/view/102'')
       = HttpResponse 200 sample_detail_102
   \<and> (\<exists>p. parse_news_page sample_unicode sample_world sample_detail_101 = Inr p
          \<and> d_isin p = Some (str ''RU000A106SE5'') \<and> d_published_date p = str ''01.02.2024'')
   \<and> (\<exists>p. parse_news_page sample_unicode sample_world sample_detail_102 = Inr p
          \<and> d_isin p = Some (str ''RU000A999XX1'') \<and> d_published_date p = str ''02.02.2024'')
   \<and> map isin (get_recent_news sample_unicode sample_world) = [None, None]
   \<and> map published_date (get_recent_news sample_unicode sample_world)
       = [str ''03.11.2026'', str ''03.11.2026'']"
proof -
  have u: "map news_url (get_recent_news sample_unicode sample_world)
     = [str ''https://nsddata.ru/ru/news/view/101'', str ''https://nsddata.ru/ru/news/view/102'']"
    unfolding get_recent_news_ok [OF sample_request sample_index_soup] sample_anchors
    by (simp add: candidate_of_def href_of_def base_url_def str_def)
  have h: "http_get sample_world (str ''https://nsddata.ru/ru/news/view/101'')
       = HttpResponse 200 sample_detail_101
     \<and> http_get sample_world (str ''https://nsddata.ru/ru/news/view/102'')
       = HttpResponse 200 sample_detail_102"
    by (simp add: sample_world_def sample_site_def str_def)
  have i: "map isin (get_recent_news sample_unicode sample_world) = [None, None]
     \<and> map published_date (get_recent_news sample_unicode sample_world)
         = [str ''03.11.2026'', str ''03.11.2026'']"
    unfolding get_recent_news_ok [OF sample_request sample_index_soup] sample_anchors
    by (simp add: candidate_of_def sample_index_fields)
  have p1: "parse_news_page sample_unicode sample_world sample_detail_101
            = Inr (fields_of sample_unicode sample_world sample_detail_101)"
    using sample_detail_soups [THEN conjunct1] by (rule parse_news_page_accepted)
  have p2: "parse_news_page sample_unicode sample_world sample_detail_102
            = Inr (fields_of sample_unicode sample_world sample_detail_102)"
    using sample_detail_soups [THEN conjunct2] by (rule parse_news_page_accepted)
  show ?thesis using u h i p1 p2 sample_detail_fields [of sample_unicode] by simp
qed

end
